theory Spec2Isabelle
  imports Complex_Main
begin

section \<open>Data model (models.py)\<close>

text \<open>
  Python floats are modelled as real numbers: arithmetic is exact, there is no NaN and no
  rounding error. Python integers are \<open>int\<close>. Numpy arrays of one dimension are lists.
  The display label \<open>hindi_name\<close> of a taal definition has no behavioural role and is
  left out of the record.
\<close>

datatype TaalName = TEENTAAL | RUPAK | DADRA | JHAPTAAL | EKTAAL | DEEPCHANDI | KEHERWA

record TaalDefinition =
  name :: TaalName
  matras :: int
  vibhags :: "int list"
  sam_position :: int
  khali_positions :: "int list"
  tali_positions :: "int list"
  common_layas :: "string list"

text \<open>
  The property \<open>vibhag_boundaries\<close>: the list starts as \<open>[0]\<close> and, for every vibhag
  but the last, the last boundary plus that vibhag is appended.
\<close>

definition vibhag_boundaries :: "TaalDefinition \<Rightarrow> int list" where
  "vibhag_boundaries d =
     fold (\<lambda>v boundaries. boundaries @ [last boundaries + v]) (butlast (vibhags d)) [0]"

record BeatInfo =
  time :: real
  beat_position :: int
  is_sam :: bool
  is_khali :: bool
  strength :: real

record TaalDetectionResult =
  taal :: TaalName
  confidence :: real
  tempo_bpm :: real
  matra_duration :: real
  cycle_duration :: real
  beats :: "BeatInfo list"
  alternative_taals :: "(TaalName \<times> real) list"

section \<open>The registry (taals/definitions.py)\<close>

text \<open>
  The dictionary \<open>TAAL_REGISTRY\<close> is an association list in the insertion order of the
  source, since \<open>values()\<close> is iterated in that order.
\<close>

definition TAAL_REGISTRY :: "(TaalName \<times> TaalDefinition) list" where
  "TAAL_REGISTRY =
    [(DADRA, \<lparr>name = DADRA, matras = 6, vibhags = [3, 3], sam_position = 0,
        khali_positions = [3], tali_positions = [0],
        common_layas = [''madhya'', ''drut'']\<rparr>),
     (RUPAK, \<lparr>name = RUPAK, matras = 7, vibhags = [3, 2, 2], sam_position = 0,
        khali_positions = [0], tali_positions = [3, 5],
        common_layas = [''madhya'', ''drut'']\<rparr>),
     (KEHERWA, \<lparr>name = KEHERWA, matras = 8, vibhags = [4, 4], sam_position = 0,
        khali_positions = [4], tali_positions = [0],
        common_layas = [''madhya'', ''drut'']\<rparr>),
     (JHAPTAAL, \<lparr>name = JHAPTAAL, matras = 10, vibhags = [2, 3, 2, 3], sam_position = 0,
        khali_positions = [5], tali_positions = [0, 2, 7],
        common_layas = [''vilambit'', ''madhya'', ''drut'']\<rparr>),
     (EKTAAL, \<lparr>name = EKTAAL, matras = 12, vibhags = [2, 2, 2, 2, 2, 2], sam_position = 0,
        khali_positions = [2, 8], tali_positions = [0, 4, 6, 10],
        common_layas = [''vilambit'', ''madhya'', ''drut'']\<rparr>),
     (DEEPCHANDI, \<lparr>name = DEEPCHANDI, matras = 14, vibhags = [3, 4, 3, 4], sam_position = 0,
        khali_positions = [7], tali_positions = [0, 3, 10],
        common_layas = [''vilambit'', ''madhya'']\<rparr>),
     (TEENTAAL, \<lparr>name = TEENTAAL, matras = 16, vibhags = [4, 4, 4, 4], sam_position = 0,
        khali_positions = [8], tali_positions = [0, 4, 12],
        common_layas = [''vilambit'', ''madhya'', ''drut'']\<rparr>)]"

definition registry_values :: "TaalDefinition list" where
  "registry_values = map snd TAAL_REGISTRY"

definition get_taals_by_matras :: "int \<Rightarrow> TaalDefinition list" where
  "get_taals_by_matras m = filter (\<lambda>t. matras t = m) registry_values"

section \<open>Errors and numpy primitives\<close>

text \<open>
  The exceptions the code can raise. \<open>NanResult\<close> stands for a float \<open>nan\<close> returned
  by numpy (the median of an empty array), which the real numbers do not have.
\<close>

datatype py_error = ValueError | IndexError | KeyError | ZeroDivisionError | NanResult

definition bind_err :: "py_error + 'a \<Rightarrow> ('a \<Rightarrow> py_error + 'b) \<Rightarrow> py_error + 'b" where
  "bind_err m f = (case m of Inl e \<Rightarrow> Inl e | Inr x \<Rightarrow> f x)"

text \<open>A loop \<open>for x in xs: state = body(x, state)\<close> whose body may raise.\<close>

fun for_each :: "('a \<Rightarrow> 's \<Rightarrow> py_error + 's) \<Rightarrow> 'a list \<Rightarrow> 's \<Rightarrow> py_error + 's" where
  "for_each body [] s = Inr s"
| "for_each body (x # xs) s = bind_err (body x s) (for_each body xs)"

text \<open>\<open>TAAL_REGISTRY[taal_name]\<close> raises KeyError on a missing key.\<close>

definition registry_getitem :: "TaalName \<Rightarrow> py_error + TaalDefinition" where
  "registry_getitem taal_name =
     (case map_of TAAL_REGISTRY taal_name of None \<Rightarrow> Inl KeyError | Some d \<Rightarrow> Inr d)"

text \<open>
  \<open>np.ones(n) * v\<close> and \<open>np.zeros(n)\<close>: numpy raises ValueError on a negative
  dimension.
\<close>

definition np_full :: "int \<Rightarrow> real \<Rightarrow> py_error + real list" where
  "np_full n v = (if n < 0 then Inl ValueError else Inr (replicate (nat n) v))"

text \<open>
  Indexing a one-dimensional array with an integer: a negative index counts from the
  end, an index outside \<open>[-len, len)\<close> raises IndexError.
\<close>

definition np_index :: "'a list \<Rightarrow> int \<Rightarrow> py_error + nat" where
  "np_index xs i =
     (if 0 \<le> i \<and> i < int (length xs) then Inr (nat i)
      else if - int (length xs) \<le> i \<and> i < 0 then Inr (nat (int (length xs) + i))
      else Inl IndexError)"

definition np_getitem :: "'a list \<Rightarrow> int \<Rightarrow> py_error + 'a" where
  "np_getitem xs i = bind_err (np_index xs i) (\<lambda>j. Inr (xs ! j))"

definition np_setitem :: "'a list \<Rightarrow> int \<Rightarrow> 'a \<Rightarrow> py_error + 'a list" where
  "np_setitem xs i v = bind_err (np_index xs i) (\<lambda>j. Inr (xs[j := v]))"

text \<open>\<open>astype(int)\<close> on a float truncates toward zero.\<close>

definition astype_int :: "real \<Rightarrow> int" where
  "astype_int x = (if x < 0 then \<lceil>x\<rceil> else \<lfloor>x\<rfloor>)"

section \<open>Cycle length estimation (taal.py, estimate_cycle_length)\<close>

text \<open>
  The loop \<open>for i in range(1, len(beat_positions))\<close>: \<open>prev\<close> is
  \<open>beat_positions[i - 1]\<close>, the list holds \<open>beat_positions[i:]\<close>, and the state is
  the pair of \<open>cycle_lengths\<close> and \<open>current_max\<close>.
\<close>

fun scan_resets :: "int \<Rightarrow> int list \<Rightarrow> int list \<times> int \<Rightarrow> int list \<times> int" where
  "scan_resets prev [] (cycle_lengths, current_max) = (cycle_lengths, current_max)"
| "scan_resets prev (p # ps) (cycle_lengths, current_max) =
     (if p \<le> prev then scan_resets p ps (cycle_lengths @ [current_max + 1], p)
      else scan_resets p ps (cycle_lengths, max current_max p))"

text \<open>
  \<open>Counter(xs)\<close>: a dictionary of counts that keeps its keys in the order of first
  insertion.
\<close>

fun counter_add :: "'a \<Rightarrow> ('a \<times> nat) list \<Rightarrow> ('a \<times> nat) list" where
  "counter_add x [] = [(x, 1)]"
| "counter_add x ((y, c) # rest) =
     (if x = y then (y, c + 1) # rest else (y, c) # counter_add x rest)"

definition Counter :: "'a list \<Rightarrow> ('a \<times> nat) list" where
  "Counter xs = fold counter_add xs []"

text \<open>
  \<open>most_common(1)\<close> is \<open>max(items, key=count)\<close>, which keeps the first item among
  those of greatest count; on an empty counter it is the empty list.
\<close>

fun max_by_count :: "'a \<times> nat \<Rightarrow> ('a \<times> nat) list \<Rightarrow> 'a \<times> nat" where
  "max_by_count best [] = best"
| "max_by_count best (kv # rest) =
     max_by_count (if snd best < snd kv then kv else best) rest"

definition most_common1 :: "('a \<times> nat) list \<Rightarrow> ('a \<times> nat) list" where
  "most_common1 items = (case items of [] \<Rightarrow> [] | kv # rest \<Rightarrow> [max_by_count kv rest])"

text \<open>\<open>np.max\<close> of a non-empty array.\<close>

definition np_max :: "int list \<Rightarrow> py_error + int" where
  "np_max xs = (case xs of [] \<Rightarrow> Inl ValueError | x # rest \<Rightarrow> Inr (fold max rest x))"

definition estimate_cycle_length :: "(real \<times> real) list \<Rightarrow> py_error + int" where
  "estimate_cycle_length downbeats =
     (if length downbeats = 0 then Inr 0
      else
        let beat_positions = map (\<lambda>row. astype_int (snd row)) downbeats;
            (cycle_lengths, current_max) =
               scan_resets (hd beat_positions) (tl beat_positions) ([], 0);
            cycle_lengths =
               (if current_max > 0 then cycle_lengths @ [current_max + 1] else cycle_lengths)
        in if cycle_lengths = [] then bind_err (np_max beat_positions) (\<lambda>m. Inr (m + 1))
           else bind_err (np_getitem (most_common1 (Counter cycle_lengths)) 0)
                  (\<lambda>kv. Inr (fst kv)))"

text \<open>The fixtures of tests/conftest.py: \<open>n\<close> cycles of positions \<open>0 .. len - 1\<close>.\<close>

definition sample_downbeats :: "nat \<Rightarrow> nat \<Rightarrow> (real \<times> real) list" where
  "sample_downbeats n len =
     map (\<lambda>k. (1 / 2 + real k / 2, real (k mod len))) [0 ..< n * len]"

section \<open>Accent templates (taal.py, \_build\_expected\_accent\_pattern)\<close>

definition np_ones :: "int \<Rightarrow> py_error + real list" where
  "np_ones n = np_full n 1"

definition np_zeros :: "int \<Rightarrow> py_error + real list" where
  "np_zeros n = np_full n 0"

definition build_expected_accent_pattern :: "TaalName \<Rightarrow> int \<Rightarrow> py_error + real list" where
  "build_expected_accent_pattern taal_name cycle_length =
     bind_err (registry_getitem taal_name) (\<lambda>taal_def.
     bind_err (np_ones cycle_length) (\<lambda>ones.
     let pattern = map (\<lambda>x. x * 0.5) ones in
     bind_err (np_setitem pattern (sam_position taal_def) 1.0) (\<lambda>pattern.
     bind_err (for_each
        (\<lambda>pos pattern. if pos < cycle_length then np_setitem pattern pos 0.8 else Inr pattern)
        (tali_positions taal_def) pattern) (\<lambda>pattern.
     bind_err (for_each
        (\<lambda>pos pattern. if pos < cycle_length then np_setitem pattern pos 0.2 else Inr pattern)
        (khali_positions taal_def) pattern) (\<lambda>pattern.
     for_each
        (\<lambda>boundary pattern.
           if boundary < cycle_length
           then bind_err (np_getitem pattern boundary) (\<lambda>w.
                  if w = 0.5 then np_setitem pattern boundary 0.65 else Inr pattern)
           else Inr pattern)
        (vibhag_boundaries taal_def) pattern)))))"

section \<open>Cyclic averaging and normalisation (taal.py)\<close>

text \<open>
  \<open>reshape(n, m)\<close> of a one-dimensional array into \<open>n\<close> rows of \<open>m\<close> entries; numpy
  raises ValueError when the size is not \<open>n * m\<close>.
\<close>

definition np_reshape :: "real list \<Rightarrow> nat \<Rightarrow> nat \<Rightarrow> py_error + real list list" where
  "np_reshape xs n m =
     (if length xs \<noteq> n * m then Inl ValueError
      else Inr (map (\<lambda>r. take m (drop (r * m) xs)) [0 ..< n]))"

text \<open>\<open>np.mean(cycles, axis=0)\<close> of \<open>n\<close> rows of \<open>m\<close> entries, \<open>n\<close> positive.\<close>

definition np_mean_axis0 :: "real list list \<Rightarrow> nat \<Rightarrow> real list" where
  "np_mean_axis0 rows m =
     map (\<lambda>j. sum_list (map (\<lambda>row. row ! j) rows) / real (length rows)) [0 ..< m]"

definition average_cyclic_pattern :: "real list \<Rightarrow> int \<Rightarrow> py_error + real list" where
  "average_cyclic_pattern strengths cycle_length =
     (if length strengths = 0 \<or> cycle_length \<le> 0 then np_zeros cycle_length
      else
        let n_full_cycles = int (length strengths) div cycle_length in
        if n_full_cycles = 0
        then bind_err (np_zeros cycle_length) (\<lambda>padded.
               Inr (strengths @ drop (length strengths) padded))
        else
          let trimmed = take (nat (n_full_cycles * cycle_length)) strengths in
          bind_err (np_reshape trimmed (nat n_full_cycles) (nat cycle_length)) (\<lambda>cycles.
          Inr (np_mean_axis0 cycles (nat cycle_length))))"

definition np_norm :: "real list \<Rightarrow> real" where
  "np_norm arr = sqrt (sum_list (map (\<lambda>x. x * x) arr))"

definition normalize :: "real list \<Rightarrow> real list" where
  "normalize arr = (let norm = np_norm arr in if norm = 0 then arr else map (\<lambda>x. x / norm) arr)"

text \<open>\<open>np.dot\<close> of two one-dimensional arrays raises ValueError when the sizes differ.\<close>

definition np_dot :: "real list \<Rightarrow> real list \<Rightarrow> py_error + real" where
  "np_dot xs ys =
     (if length xs \<noteq> length ys then Inl ValueError
      else Inr (sum_list (map (\<lambda>(x, y). x * y) (zip xs ys))))"

section \<open>Pattern matching and retry (taal.py)\<close>

text \<open>
  \<open>sorted(results, key=lambda x: x[1], reverse=True)\<close>: a stable sort by descending
  confidence; entries of equal confidence keep their order.
\<close>

definition sorted_desc :: "(TaalName \<times> real) list \<Rightarrow> (TaalName \<times> real) list" where
  "sorted_desc results = sort_key (\<lambda>x. - snd x) results"

definition match_accent_pattern ::
  "real list \<Rightarrow> int \<Rightarrow> py_error + (TaalName \<times> real) list" where
  "match_accent_pattern observed_pattern cycle_length =
     (let candidates = get_taals_by_matras cycle_length in
      if candidates = [] then Inr []
      else
        bind_err (for_each
          (\<lambda>taal_def results.
             bind_err (build_expected_accent_pattern (name taal_def) cycle_length) (\<lambda>expected.
             bind_err (average_cyclic_pattern observed_pattern cycle_length) (\<lambda>avg_pattern.
             let obs_norm = normalize avg_pattern; exp_norm = normalize expected in
             bind_err (np_dot obs_norm exp_norm) (\<lambda>similarity.
             let confidence = max 0.0 (min 1.0 similarity) in
             Inr (results @ [(name taal_def, confidence)])))))
          candidates [])
        (\<lambda>results. Inr (sorted_desc results)))"

definition try_nearby_cycle_lengths ::
  "real list \<Rightarrow> int \<Rightarrow> py_error + (TaalName \<times> real) list" where
  "try_nearby_cycle_lengths accent_strengths cycle_length =
     bind_err (for_each
       (\<lambda>offset all_rankings.
          let nearby = cycle_length + offset in
          if nearby > 0
          then bind_err (match_accent_pattern accent_strengths nearby) (\<lambda>rankings.
                 Inr (all_rankings @ map (\<lambda>(nm, conf). (nm, conf * 0.8)) rankings))
          else Inr all_rankings)
       [-1, 1, -2, 2] [])
     (\<lambda>all_rankings. Inr (sorted_desc all_rankings))"

section \<open>Tempo (beats.py) and rounding\<close>

text \<open>\<open>np.diff\<close>: the differences of consecutive entries.\<close>

definition compute_ioi :: "real list \<Rightarrow> real list" where
  "compute_ioi beat_times = map (\<lambda>(a, b). b - a) (zip beat_times (tl beat_times))"

text \<open>
  \<open>np.median\<close>: the middle entry of the sorted array, or the mean of the two middle
  entries; \<open>nan\<close> on the empty array.
\<close>

definition np_median :: "real list \<Rightarrow> py_error + real" where
  "np_median xs =
     (let s = sort xs; n = length s in
      if n = 0 then Inl NanResult
      else if odd n then Inr (s ! (n div 2))
      else Inr ((s ! (n div 2 - 1) + s ! (n div 2)) / 2))"

definition estimate_tempo :: "real list \<Rightarrow> py_error + real" where
  "estimate_tempo beat_times =
     (if length beat_times < 2 then Inr 0.0
      else bind_err (np_median (compute_ioi beat_times)) (\<lambda>median_ioi.
             if median_ioi \<le> 0 then Inr 0.0 else Inr (60.0 / median_ioi)))"

text \<open>
  Python's \<open>round(x, ndigits)\<close> rounds to the nearest multiple of \<open>10 ^ (- ndigits)\<close>, an
  exact tie going to the even neighbour.
\<close>

definition round_half_even :: "real \<Rightarrow> int" where
  "round_half_even x =
     (let f = \<lfloor>x\<rfloor>; d = x - of_int f in
      if d < 1 / 2 then f else if 1 / 2 < d then f + 1 else if even f then f else f + 1)"

definition py_round :: "real \<Rightarrow> nat \<Rightarrow> real" where
  "py_round x ndigits = of_int (round_half_even (x * 10 ^ ndigits)) / 10 ^ ndigits"

section \<open>Fallback, beat annotation and the pipeline (taal.py)\<close>

text \<open>
  \<open>min(xs, key=f)\<close> keeps the first entry among those of least key and raises ValueError
  on an empty sequence.
\<close>

definition py_min_key :: "('a \<Rightarrow> int) \<Rightarrow> 'a list \<Rightarrow> py_error + 'a" where
  "py_min_key f xs =
     (case xs of [] \<Rightarrow> Inl ValueError
      | x # rest \<Rightarrow> Inr (fold (\<lambda>y best. if f y < f best then y else best) rest x))"

definition build_fallback_result :: "real list \<Rightarrow> int \<Rightarrow> py_error + TaalDetectionResult" where
  "build_fallback_result beat_times cycle_length =
     bind_err (estimate_tempo beat_times) (\<lambda>tempo.
     bind_err (py_min_key (\<lambda>t. \<bar>matras t - cycle_length\<bar>) registry_values) (\<lambda>closest_taal.
     let matra_dur = (if tempo > 0 then 60.0 / tempo else 0.0) in
     Inr \<lparr>taal = name closest_taal,
          confidence = 0.1,
          tempo_bpm = py_round tempo 1,
          matra_duration = py_round matra_dur 4,
          cycle_duration = py_round (matra_dur * of_int (matras closest_taal)) 4,
          beats = [],
          alternative_taals = []\<rparr>))"

text \<open>\<open>i % m\<close> on Python integers: the sign of the divisor, ZeroDivisionError on 0.\<close>

definition py_mod :: "int \<Rightarrow> int \<Rightarrow> py_error + int" where
  "py_mod i m = (if m = 0 then Inl ZeroDivisionError else Inr (i mod m))"

definition build_beat_infos ::
  "real list \<Rightarrow> real list \<Rightarrow> TaalDefinition \<Rightarrow> py_error + BeatInfo list" where
  "build_beat_infos beat_times strengths taal_def =
     for_each
       (\<lambda>(i, beat_time) beat_infos.
          bind_err (py_mod (int i) (matras taal_def)) (\<lambda>pos.
          Inr (beat_infos @
            [\<lparr>time = py_round beat_time 4,
              beat_position = pos,
              is_sam = (pos = sam_position taal_def),
              is_khali = (pos \<in> set (khali_positions taal_def)),
              strength = (if i < length strengths then py_round (strengths ! i) 4 else 0.0)\<rparr>])))
       (enumerate 0 beat_times) []"

text \<open>
  \<open>detect_taal\<close> after its three calls to the external detector: the beat times, the
  downbeat rows \<open>(time, beat_position)\<close> and the accent strengths are the arguments.
\<close>

definition detect_taal ::
  "real list \<Rightarrow> (real \<times> real) list \<Rightarrow> real list \<Rightarrow> py_error + TaalDetectionResult" where
  "detect_taal beat_times downbeats accent_strengths =
     bind_err (estimate_cycle_length downbeats) (\<lambda>cycle_length.
     bind_err (match_accent_pattern accent_strengths cycle_length) (\<lambda>rankings.
     bind_err (if rankings = []
               then try_nearby_cycle_lengths accent_strengths cycle_length
               else Inr rankings) (\<lambda>rankings.
     case rankings of
       [] \<Rightarrow> build_fallback_result beat_times cycle_length
     | (best_taal, best_confidence) # alternatives \<Rightarrow>
         bind_err (estimate_tempo beat_times) (\<lambda>tempo.
         bind_err (registry_getitem best_taal) (\<lambda>taal_def.
         let matra_dur = (if tempo > 0 then 60.0 / tempo else 0.0);
             cycle_dur = matra_dur * of_int (matras taal_def) in
         bind_err (build_beat_infos beat_times accent_strengths taal_def) (\<lambda>beat_infos.
         Inr \<lparr>taal = best_taal,
              confidence = best_confidence,
              tempo_bpm = py_round tempo 1,
              matra_duration = py_round matra_dur 4,
              cycle_duration = py_round cycle_dur 4,
              beats = beat_infos,
              alternative_taals = alternatives\<rparr>))))))"

section \<open>Specification-level definitions\<close>

text \<open>
  The definitions of this section are not translations of source functions. They are what
  the source functions are compared with: the wording of the specification where it has
  one, and a closed form of what a loop of the source computes otherwise.
\<close>

text \<open>The column \<open>downbeats[:, 1].astype(int)\<close>.\<close>

definition beat_positions_of :: "(real \<times> real) list \<Rightarrow> int list" where
  "beat_positions_of downbeats = map (\<lambda>row. astype_int (snd row)) downbeats"

text \<open>
  The bars of a position stream: a new bar starts at every position that is not greater
  than the one before it.
\<close>

fun bars :: "int list \<Rightarrow> int list list" where
  "bars [] = []"
| "bars [p] = [[p]]"
| "bars (p # q # ps) =
     (if q \<le> p then [p] # bars (q # ps)
      else (case bars (q # ps) of [] \<Rightarrow> [[p]] | b # bs \<Rightarrow> (p # b) # bs))"

text \<open>
  The running maximum of each bar, as the specification words it: the greatest position
  seen since the last reset, that is the greatest position of the bar.
\<close>

definition running_maxima :: "int list \<Rightarrow> int list" where
  "running_maxima ps = map (\<lambda>b. Max (set b)) (bars ps)"

text \<open>
  The recorded lengths of the specification: the running maximum plus one for every bar
  closed by a boundary, and for the trailing bar when its running maximum is positive.
\<close>

definition observed_lengths :: "int list \<Rightarrow> int list" where
  "observed_lengths ps =
     (let ms = running_maxima ps in
      if ms = [] then []
      else map (\<lambda>m. m + 1) (butlast ms) @ (if 0 < last ms then [last ms + 1] else []))"

text \<open>
  A closed form of what the loop of \<open>estimate_cycle_length\<close> holds in \<open>current_max\<close> at the
  end of each bar. The loop starts \<open>current_max\<close> at 0 and compares from index 1 on, so in
  the first bar the first position of the stream is left out; after a reset
  \<open>current_max\<close> restarts from the position that caused the reset.
\<close>

definition scanned_maxima :: "int list \<Rightarrow> int list" where
  "scanned_maxima ps =
     (case bars ps of [] \<Rightarrow> []
      | b # bs \<Rightarrow> Max (insert 0 (set (tl b))) # map (\<lambda>b. Max (set b)) bs)"

text \<open>A closed form of the list \<open>cycle_lengths\<close> the code tallies.\<close>

definition scanned_lengths :: "int list \<Rightarrow> int list" where
  "scanned_lengths ps =
     (let ms = scanned_maxima ps in
      if ms = [] then []
      else map (\<lambda>m. m + 1) (butlast ms) @ (if 0 < last ms then [last ms + 1] else []))"

text \<open>The values of a list in the order of their first occurrence.\<close>

definition first_seen :: "'a list \<Rightarrow> 'a list" where
  "first_seen xs = rev (remdups (rev xs))"

text \<open>The first entry of a list, in iteration order, that no entry occurs more often than.\<close>

definition first_most_frequent :: "'a list \<Rightarrow> 'a option" where
  "first_most_frequent xs =
     find (\<lambda>x. \<forall>y \<in> set xs. count_list xs y \<le> count_list xs x) xs"

text \<open>
  Cyclic averaging as the specification words it: with \<open>n = floor(len / m)\<close> full cycles,
  entry \<open>j\<close> is the mean of the entries \<open>j, m + j, ..., (n - 1) * m + j\<close>; entries from
  index \<open>n * m\<close> on are not read. With no full cycle the sequence is padded with zeros
  up to \<open>m\<close>.
\<close>

definition cyclic_mean :: "real list \<Rightarrow> nat \<Rightarrow> real list" where
  "cyclic_mean strengths m =
     (let n = length strengths div m in
      if n = 0 then strengths @ replicate (m - length strengths) 0
      else map (\<lambda>j. sum_list (map (\<lambda>r. strengths ! (r * m + j)) [0 ..< n]) / real n) [0 ..< m])"

text \<open>
  The weight the statements of the template builder leave at index \<open>i\<close>: the khali loop
  runs last and overrides the tali loop, which overrides the sam assignment; a vibhag
  boundary is raised only where the baseline is left.
\<close>

definition template_weight :: "TaalDefinition \<Rightarrow> int \<Rightarrow> real" where
  "template_weight d i =
     (if i \<in> set (khali_positions d) then 0.2
      else if i \<in> set (tali_positions d) then 0.8
      else if i = sam_position d then 1.0
      else if i \<in> set (vibhag_boundaries d) then 0.65
      else 0.5)"

text \<open>No position of a definition is negative (a negative index would count from the end).\<close>

definition nonneg_positions :: "TaalDefinition \<Rightarrow> bool" where
  "nonneg_positions d \<longleftrightarrow>
     0 \<le> sam_position d \<and> list_all (\<lambda>p. 0 \<le> p) (tali_positions d)
     \<and> list_all (\<lambda>p. 0 \<le> p) (khali_positions d)
     \<and> list_all (\<lambda>p. 0 \<le> p) (vibhag_boundaries d)"

text \<open>
  The confidence the matcher gives a candidate: the clamped dot product of the normalised
  cyclic mean of the observation and the normalised template.
\<close>

definition match_confidence :: "real list \<Rightarrow> int \<Rightarrow> TaalDefinition \<Rightarrow> real" where
  "match_confidence observed_pattern cycle_length d =
     max 0.0 (min 1.0 (sum_list (map (\<lambda>(x, y). x * y)
       (zip (normalize (cyclic_mean observed_pattern (nat cycle_length)))
            (normalize (map (\<lambda>i. template_weight d (int i)) [0 ..< nat cycle_length]))))))"

text \<open>The ranking the matcher returns at a cycle length.\<close>

definition ranking :: "real list \<Rightarrow> int \<Rightarrow> (TaalName \<times> real) list" where
  "ranking observed_pattern cycle_length =
     sorted_desc (map (\<lambda>d. (name d, match_confidence observed_pattern cycle_length d))
       (get_taals_by_matras cycle_length))"

text \<open>
  The ranking of one retry offset after the penalty: empty when the candidate length is not
  positive, otherwise the matcher's ranking with every confidence multiplied by 0.8.
\<close>

definition penalized :: "real list \<Rightarrow> int \<Rightarrow> (TaalName \<times> real) list" where
  "penalized accent_strengths nearby =
     (if 0 < nearby then map (\<lambda>(nm, conf). (nm, conf * 0.8)) (ranking accent_strengths nearby)
      else [])"

text \<open>The merged retry ranking: offsets -1, +1, -2, +2 in this order, then sorted.\<close>

definition nearby_rankings :: "real list \<Rightarrow> int \<Rightarrow> (TaalName \<times> real) list" where
  "nearby_rankings s cl =
     sorted_desc (penalized s (cl + - 1) @ penalized s (cl + 1)
        @ penalized s (cl + - 2) @ penalized s (cl + 2))"

text \<open>The ranking the pipeline goes on with: the retry ranking when the exact one is empty.\<close>

definition final_rankings :: "real list \<Rightarrow> int \<Rightarrow> (TaalName \<times> real) list" where
  "final_rankings s cl = (if ranking s cl = [] then nearby_rankings s cl else ranking s cl)"

text \<open>The annotation of beat \<open>i\<close> at time \<open>beat_time\<close>, for the pair \<open>(i, beat_time)\<close>.\<close>

definition annotate_beat :: "real list \<Rightarrow> TaalDefinition \<Rightarrow> nat \<times> real \<Rightarrow> BeatInfo" where
  "annotate_beat strengths taal_def ib =
     \<lparr>time = py_round (snd ib) 4,
      beat_position = int (fst ib) mod matras taal_def,
      is_sam = (int (fst ib) mod matras taal_def = sam_position taal_def),
      is_khali = (int (fst ib) mod matras taal_def \<in> set (khali_positions taal_def)),
      strength = (if fst ib < length strengths then py_round (strengths ! fst ib) 4 else 0.0)\<rparr>"

section \<open>Basic facts\<close>

lemma bind_err_simps [simp]:
  "bind_err (Inl e) f = Inl e" "bind_err (Inr x) f = f x"
  by (simp_all add: bind_err_def)

lemma first_seen_snoc:
  "first_seen (xs @ [x]) = (if x \<in> set xs then first_seen xs else first_seen xs @ [x])"
  by (simp add: first_seen_def)

lemma remdups_snoc: "remdups (ys @ [x]) = filter (\<lambda>y. y \<noteq> x) (remdups ys) @ [x]"
  by (induction ys) auto

lemma first_seen_Cons: "first_seen (x # xs) = x # filter (\<lambda>y. y \<noteq> x) (first_seen xs)"
  by (simp add: first_seen_def remdups_snoc rev_filter)

lemma set_first_seen [simp]: "set (first_seen xs) = set xs"
  by (simp add: first_seen_def)

lemma distinct_first_seen [simp]: "distinct (first_seen xs)"
  by (simp add: first_seen_def)

lemma counter_add_map:
  "distinct ys \<Longrightarrow>
   counter_add x (map (\<lambda>y. (y, c y)) ys) =
     (if x \<in> set ys then map (\<lambda>y. (y, if y = x then c y + 1 else c y)) ys
      else map (\<lambda>y. (y, c y)) ys @ [(x, 1)])"
  by (induction ys) auto

lemma Counter_snoc: "Counter (xs @ [x]) = counter_add x (Counter xs)"
  by (simp add: Counter_def)

lemma Counter_eq: "Counter xs = map (\<lambda>x. (x, count_list xs x)) (first_seen xs)"
proof (induction xs rule: rev_induct)
  case Nil
  show ?case by (simp add: Counter_def first_seen_def)
next
  case (snoc x xs)
  show ?case
  proof (cases "x \<in> set xs")
    case True
    then show ?thesis
      by (simp add: Counter_snoc snoc counter_add_map first_seen_snoc)
  next
    case False
    then have "count_list xs x = 0" by (simp add: count_list_0_iff)
    with False show ?thesis
      by (auto simp add: Counter_snoc snoc counter_add_map first_seen_snoc)
  qed
qed

lemma max_by_count_split:
  "\<forall>e \<in> set pre0. snd e < snd best \<Longrightarrow> \<forall>e \<in> set post0. snd e \<le> snd best \<Longrightarrow>
   \<exists>pre post. pre0 @ best # post0 @ rest = pre @ max_by_count best rest # post
      \<and> (\<forall>e \<in> set pre. snd e < snd (max_by_count best rest))
      \<and> (\<forall>e \<in> set post. snd e \<le> snd (max_by_count best rest))"
proof (induction rest arbitrary: best pre0 post0)
  case Nil
  then show ?case by auto
next
  case (Cons kv rest)
  show ?case
  proof (cases "snd best < snd kv")
    case True
    have "\<forall>e \<in> set (pre0 @ best # post0). snd e < snd kv"
      using Cons.prems True by auto
    from Cons.IH [OF this, of "[]"] True show ?thesis by simp
  next
    case False
    have "\<forall>e \<in> set (post0 @ [kv]). snd e \<le> snd best"
      using Cons.prems False by auto
    from Cons.IH [OF Cons.prems(1) this] False show ?thesis by simp
  qed
qed

lemma filter_eq_appendD:
  "filter P xs = ys @ zs \<Longrightarrow> \<exists>us vs. xs = us @ vs \<and> filter P us = ys \<and> filter P vs = zs"
proof (induction xs arbitrary: ys)
  case Nil
  then show ?case by simp
next
  case (Cons a xs)
  show ?case
  proof (cases "P a")
    case False
    with Cons.prems have "filter P xs = ys @ zs" by simp
    from Cons.IH [OF this] obtain us vs where "xs = us @ vs" "filter P us = ys" "filter P vs = zs"
      by blast
    with False have "a # xs = (a # us) @ vs \<and> filter P (a # us) = ys \<and> filter P vs = zs"
      by simp
    then show ?thesis by blast
  next
    case True
    show ?thesis
    proof (cases ys)
      case Nil
      with Cons.prems have "a # xs = [] @ (a # xs) \<and> filter P [] = ys \<and> filter P (a # xs) = zs"
        by simp
      then show ?thesis by blast
    next
      case (Cons y ys')
      with True Cons.prems have ya: "y = a" and "filter P xs = ys' @ zs" by auto
      from Cons.IH [OF this(2)] obtain us vs where
        "xs = us @ vs" "filter P us = ys'" "filter P vs = zs" by blast
      with True ya Cons have "a # xs = (a # us) @ vs \<and> filter P (a # us) = ys \<and> filter P vs = zs"
        by simp
      then show ?thesis by blast
    qed
  qed
qed

lemma first_seen_takeWhile:
  "first_seen xs = pre @ r # post \<Longrightarrow> set pre = set (takeWhile (\<lambda>z. z \<noteq> r) xs)"
proof (induction xs arbitrary: pre post)
  case Nil
  then show ?case by (simp add: first_seen_def)
next
  case (Cons x xs)
  show ?case
  proof (cases pre)
    case Nil
    with Cons.prems show ?thesis by (simp add: first_seen_Cons)
  next
    case (Cons p pre')
    with Cons.prems have px: "p = x" and
      f: "filter (\<lambda>y. y \<noteq> x) (first_seen xs) = pre' @ r # post"
      by (auto simp add: first_seen_Cons)
    from f have "r \<in> set (filter (\<lambda>y. y \<noteq> x) (first_seen xs))" by simp
    then have rx: "r \<noteq> x" by simp
    from f obtain us vs where uv: "first_seen xs = us @ vs"
      and u: "filter (\<lambda>y. y \<noteq> x) us = pre'" and v: "filter (\<lambda>y. y \<noteq> x) vs = r # post"
      using filter_eq_appendD [of "\<lambda>y. y \<noteq> x" "first_seen xs" pre' "r # post"] by blast
    from v obtain ws zs where vs: "vs = ws @ r # zs" and ws: "\<forall>w \<in> set ws. \<not> w \<noteq> x"
      by (auto simp: filter_eq_Cons_iff)
    have "first_seen xs = (us @ ws) @ r # zs" using uv vs by simp
    from Cons.IH [OF this] have "set (us @ ws) = set (takeWhile (\<lambda>z. z \<noteq> r) xs)" .
    moreover have "insert x (set pre') = insert x (set (us @ ws))"
      using u ws by auto
    ultimately show ?thesis using px rx Cons by auto
  qed
qed

lemma find_split:
  "\<forall>x \<in> set xs. \<not> P x \<Longrightarrow> P r \<Longrightarrow> find P (xs @ r # zs) = Some r"
  by (induction xs) auto

lemma most_common1_Counter:
  assumes "ls \<noteq> []"
  shows "\<exists>r c. most_common1 (Counter ls) = [(r, c)] \<and> first_most_frequent ls = Some r"
proof -
  let ?g = "\<lambda>x. (x, count_list ls x)"
  from assms obtain a fs where fs: "first_seen ls = a # fs"
    by (cases "first_seen ls") (auto simp: first_seen_def)
  let ?m = "max_by_count (?g a) (map ?g fs)"
  have mc: "most_common1 (Counter ls) = [?m]"
    by (simp add: most_common1_def Counter_eq fs)
  from max_by_count_split [of "[]" "?g a" "[]" "map ?g fs"]
  obtain pre post where sp: "map ?g (first_seen ls) = pre @ ?m # post"
    and lt: "\<forall>e \<in> set pre. snd e < snd ?m" and le: "\<forall>e \<in> set post. snd e \<le> snd ?m"
    by (auto simp: fs)
  from sp obtain pre' r post' where fsp: "first_seen ls = pre' @ r # post'"
    and p: "pre = map ?g pre'" and m: "?m = ?g r" and q: "post = map ?g post'"
    by (auto simp: map_eq_append_conv map_eq_Cons_conv)
  have rin: "r \<in> set ls" using fsp set_first_seen [of ls] by auto
  have lt': "\<forall>y \<in> set pre'. count_list ls y < count_list ls r" using lt p m by simp
  have le': "\<forall>y \<in> set post'. count_list ls y \<le> count_list ls r" using le q m by simp
  have all: "\<forall>y \<in> set ls. count_list ls y \<le> count_list ls r"
  proof
    fix y assume "y \<in> set ls"
    then have "y \<in> set (pre' @ r # post')" using fsp set_first_seen [of ls] by simp
    then show "count_list ls y \<le> count_list ls r" using lt' le' by auto
  qed
  have tw: "set pre' = set (takeWhile (\<lambda>z. z \<noteq> r) ls)" by (rule first_seen_takeWhile [OF fsp])
  have notP: "\<forall>x \<in> set (takeWhile (\<lambda>z. z \<noteq> r) ls).
      \<not> (\<forall>y \<in> set ls. count_list ls y \<le> count_list ls x)"
    using tw lt' rin by (metis not_less)
  have "dropWhile (\<lambda>z. z \<noteq> r) ls \<noteq> []" using rin by (simp add: dropWhile_eq_Nil_conv)
  moreover have "hd (dropWhile (\<lambda>z. z \<noteq> r) ls) = r"
    using rin hd_dropWhile [of "\<lambda>z. z \<noteq> r" ls] calculation by auto
  ultimately obtain zs where dw: "dropWhile (\<lambda>z. z \<noteq> r) ls = r # zs"
    by (cases "dropWhile (\<lambda>z. z \<noteq> r) ls") auto
  have "ls = takeWhile (\<lambda>z. z \<noteq> r) ls @ r # zs"
    using takeWhile_dropWhile_id [of "\<lambda>z. z \<noteq> r" ls] dw by simp
  then have "first_most_frequent ls = Some r"
    unfolding first_most_frequent_def using find_split [OF notP all, of zs] by simp
  with mc m show ?thesis by auto
qed

lemma bars_Cons_hd: "\<exists>b bs. bars (p # ps) = (p # b) # bs"
  by (induction ps arbitrary: p) (auto split: list.splits)

lemma fold_max_Max: "fold max xs (c::int) = Max (insert c (set xs))"
  using Max.set_eq_fold [of c xs] by simp

lemma scan_resets_bars:
  "scan_resets prev ps (cl, cm) =
     (case bars (prev # ps) of [] \<Rightarrow> (cl, cm)
      | b # bs \<Rightarrow>
         (let ms = fold max (tl b) cm # map (\<lambda>b. Max (set b)) bs
          in (cl @ map (\<lambda>m. m + 1) (butlast ms), last ms)))"
proof (induction ps arbitrary: prev cl cm)
  case Nil
  show ?case by simp
next
  case (Cons p ps)
  obtain b bs where b: "bars (p # ps) = (p # b) # bs" using bars_Cons_hd by blast
  show ?case
  proof (cases "p \<le> prev")
    case True
    then show ?thesis
      by (simp add: Cons.IH b fold_max_Max Let_def)
  next
    case False
    then show ?thesis
      by (simp add: Cons.IH b Let_def max.commute)
  qed
qed

lemma scan_resets_scanned_maxima:
  "ps \<noteq> [] \<Longrightarrow>
   scan_resets (hd ps) (tl ps) ([], 0) =
     (map (\<lambda>m. m + 1) (butlast (scanned_maxima ps)), last (scanned_maxima ps))"
proof -
  assume "ps \<noteq> []"
  then obtain p qs where ps: "ps = p # qs" by (cases ps) auto
  obtain b bs where b: "bars (p # qs) = (p # b) # bs" using bars_Cons_hd by blast
  show ?thesis
    by (simp add: ps scan_resets_bars b scanned_maxima_def fold_max_Max Let_def)
qed

lemma scanned_maxima_nonempty: "ps \<noteq> [] \<Longrightarrow> scanned_maxima ps \<noteq> []"
proof -
  assume "ps \<noteq> []"
  then obtain p qs where ps: "ps = p # qs" by (cases ps) auto
  obtain b bs where b: "bars (p # qs) = (p # b) # bs" using bars_Cons_hd by blast
  show ?thesis by (simp add: ps b scanned_maxima_def)
qed

lemma np_max_eq: "ps \<noteq> [] \<Longrightarrow> np_max ps = Inr (Max (set ps))"
  by (cases ps) (simp_all add: np_max_def fold_max_Max)

lemma np_getitem_singleton: "np_getitem [x] 0 = Inr x"
  by (simp add: np_getitem_def np_index_def)

lemma estimate_cycle_length_eq:
  assumes "downbeats \<noteq> []"
  shows "\<exists>r. estimate_cycle_length downbeats = Inr r \<and>
     (if scanned_lengths (beat_positions_of downbeats) = []
      then r = Max (set (beat_positions_of downbeats)) + 1
      else first_most_frequent (scanned_lengths (beat_positions_of downbeats)) = Some r)"
proof -
  let ?ps = "beat_positions_of downbeats"
  have ne: "?ps \<noteq> []" using assms by (simp add: beat_positions_of_def)
  let ?ls = "scanned_lengths ?ps"
  have est: "estimate_cycle_length downbeats =
      (if ?ls = [] then bind_err (np_max ?ps) (\<lambda>m. Inr (m + 1))
       else bind_err (np_getitem (most_common1 (Counter ?ls)) 0) (\<lambda>kv. Inr (fst kv)))"
    using assms ne
    by (simp add: estimate_cycle_length_def beat_positions_of_def [symmetric]
        scan_resets_scanned_maxima scanned_lengths_def scanned_maxima_nonempty Let_def)
  show ?thesis
  proof (cases "?ls = []")
    case True
    then show ?thesis by (simp add: est np_max_eq ne)
  next
    case False
    from most_common1_Counter [OF False] obtain r c where
      "most_common1 (Counter ?ls) = [(r, c)]" "first_most_frequent ?ls = Some r" by blast
    with False show ?thesis by (simp add: est np_getitem_singleton)
  qed
qed

lemma bars_sorted: "sorted_wrt (<) ps \<Longrightarrow> ps \<noteq> [] \<Longrightarrow> bars ps = [ps]"
proof (induction ps rule: bars.induct)
  case 1
  then show ?case by simp
next
  case (2 p)
  show ?case by simp
next
  case (3 p q ps)
  then have "q > p" "sorted_wrt (<) (q # ps)" by auto
  with 3 show ?case by simp
qed

lemma estimate_no_reset:
  assumes "downbeats \<noteq> []" and "sorted_wrt (<) (beat_positions_of downbeats)"
  shows "estimate_cycle_length downbeats = Inr (Max (set (beat_positions_of downbeats)) + 1)"
proof -
  let ?ps = "beat_positions_of downbeats"
  have ne: "?ps \<noteq> []" using assms by (simp add: beat_positions_of_def)
  then obtain p qs where ps: "?ps = p # qs" by (cases ?ps) auto
  have "bars ?ps = [?ps]" by (rule bars_sorted [OF assms(2) ne])
  then have rm: "scanned_maxima ?ps = [Max (insert 0 (set qs))]"
    unfolding scanned_maxima_def by (simp add: ps)
  from estimate_cycle_length_eq [OF assms(1)] obtain r where
    r: "estimate_cycle_length downbeats = Inr r" and
    c: "if scanned_lengths ?ps = [] then r = Max (set ?ps) + 1
        else first_most_frequent (scanned_lengths ?ps) = Some r" by blast
  show ?thesis
  proof (cases "0 < Max (insert 0 (set qs))")
    case False
    then have "scanned_lengths ?ps = []" by (simp add: scanned_lengths_def rm)
    with c r show ?thesis by simp
  next
    case True
    then have ol: "scanned_lengths ?ps = [Max (insert 0 (set qs)) + 1]"
      by (simp add: scanned_lengths_def rm)
    then have "r = Max (insert 0 (set qs)) + 1"
      using c by (simp add: first_most_frequent_def)
    moreover have "qs \<noteq> []" using True by (cases qs) auto
    moreover have "\<forall>q \<in> set qs. p < q" using assms(2) ps by simp
    ultimately have "r = Max (set ?ps) + 1"
      using True unfolding ps
      by (smt (verit) List.finite_set Max_ge Max_in Max_insert empty_iff insert_iff list.set(2) max_def set_empty)
    with r show ?thesis by simp
  qed
qed

lemma bars_members: "b \<in> set (bars ps) \<Longrightarrow> b \<noteq> [] \<and> set b \<subseteq> set ps"
proof (induction ps arbitrary: b rule: bars.induct)
  case 1
  then show ?case by simp
next
  case (2 p)
  then show ?case by simp
next
  case (3 p q ps)
  obtain c cs where c: "bars (q # ps) = (q # c) # cs" using bars_Cons_hd by blast
  show ?case
  proof (cases "q \<le> p")
    case True
    with "3.prems" have "b = [p] \<or> b \<in> set (bars (q # ps))" by simp
    then show ?thesis using "3.IH"(1) [OF True] by auto
  next
    case False
    with "3.prems" c have "b = p # q # c \<or> b \<in> set cs" by simp
    moreover have "q # c \<in> set (bars (q # ps))" using c by simp
    moreover have "\<And>d. d \<in> set cs \<Longrightarrow> d \<in> set (bars (q # ps))" using c by simp
    ultimately show ?thesis using "3.IH"(2) [OF False] by fastforce
  qed
qed

lemma scanned_maxima_nonneg:
  assumes "\<forall>p \<in> set ps. 0 \<le> p" and "m \<in> set (scanned_maxima ps)"
  shows "0 \<le> m"
proof (cases "bars ps")
  case Nil
  with assms(2) show ?thesis by (simp add: scanned_maxima_def)
next
  case (Cons b bs)
  with assms(2) have "m = Max (insert 0 (set (tl b))) \<or> (\<exists>c \<in> set bs. m = Max (set c))"
    by (auto simp: scanned_maxima_def)
  then show ?thesis
  proof
    assume "m = Max (insert 0 (set (tl b)))"
    then show ?thesis by simp
  next
    assume "\<exists>c \<in> set bs. m = Max (set c)"
    then obtain c where c: "c \<in> set bs" "m = Max (set c)" by blast
    then have "c \<in> set (bars ps)" using Cons by simp
    from bars_members [OF this] have "c \<noteq> []" "set c \<subseteq> set ps" by auto
    then have "Max (set c) \<in> set ps" using Max_in [of "set c"] by auto
    with assms(1) c show ?thesis by simp
  qed
qed

lemma scanned_lengths_members:
  "l \<in> set (scanned_lengths ps) \<Longrightarrow> \<exists>m \<in> set (scanned_maxima ps). l = m + 1"
  by (auto simp: scanned_lengths_def Let_def split: if_splits dest: in_set_butlastD)

lemma first_most_frequent_member: "first_most_frequent ls = Some r \<Longrightarrow> r \<in> set ls"
  by (auto simp: first_most_frequent_def find_Some_iff)

lemma astype_int_nonneg: "0 \<le> x \<Longrightarrow> 0 \<le> astype_int x"
  by (simp add: astype_int_def)

lemma scanned_lengths_from_bar_start:
  assumes "ps \<noteq> []" and "hd ps = 0"
  shows "scanned_lengths ps = observed_lengths ps"
proof -
  from assms obtain qs where ps: "ps = 0 # qs" by (cases ps) auto
  obtain b bs where b: "bars (0 # qs) = (0 # b) # bs" using bars_Cons_hd by blast
  have "scanned_maxima ps = running_maxima ps"
    by (simp add: scanned_maxima_def running_maxima_def ps b)
  then show ?thesis by (simp add: scanned_lengths_def observed_lengths_def)
qed

lemma estimate_cycle_length_from_bar_start:
  assumes "downbeats \<noteq> []" and "hd (beat_positions_of downbeats) = 0"
  shows "\<exists>r. estimate_cycle_length downbeats = Inr r \<and>
     (if observed_lengths (beat_positions_of downbeats) = []
      then r = Max (set (beat_positions_of downbeats)) + 1
      else first_most_frequent (observed_lengths (beat_positions_of downbeats)) = Some r)"
proof -
  have "beat_positions_of downbeats \<noteq> []" using assms(1) by (simp add: beat_positions_of_def)
  from scanned_lengths_from_bar_start [OF this assms(2)]
  have "scanned_lengths (beat_positions_of downbeats) = observed_lengths (beat_positions_of downbeats)" .
  with estimate_cycle_length_eq [OF assms(1)] show ?thesis by (simp only:)
qed

lemma estimate_cycle_length_examples:
  "estimate_cycle_length [] = Inr 0"
  "estimate_cycle_length (sample_downbeats 4 7) = Inr 7"
  "estimate_cycle_length (sample_downbeats 3 16) = Inr 16"
  by (simp add: estimate_cycle_length_def) code_simp+

lemma observed_lengths_vote_example:
  "first_most_frequent (observed_lengths [6, 0, 1, 2, 3, 4, 5, 6]) = Some 7"
  by (simp add: observed_lengths_def running_maxima_def first_most_frequent_def)

section \<open>Facts about cyclic averaging\<close>

lemma np_zeros_nat [simp]: "np_zeros (int m) = Inr (replicate m 0)"
  by (simp add: np_zeros_def np_full_def)

lemma np_reshape_rows:
  "length xs = n * m \<Longrightarrow>
   np_reshape xs n m = Inr (map (\<lambda>r. take m (drop (r * m) xs)) [0 ..< n])"
  by (simp add: np_reshape_def)

lemma row_nth:
  assumes "r < n" "j < m" "n * m \<le> length s"
  shows "take m (drop (r * m) (take (n * m) s)) ! j = s ! (r * m + j)"
proof -
  have "r * m + m \<le> n * m"
    using assms(1) by (metis Suc_leI mult_Suc mult_le_mono1 add.commute)
  then have "r * m + j < n * m" using assms(2) by linarith
  then show ?thesis using assms by (simp add: add.commute)
qed

lemma average_cyclic_pattern_nat:
  assumes "0 < m"
  shows "average_cyclic_pattern s (int m) = Inr (cyclic_mean s m)"
proof (cases "length s div m = 0")
  case True
  then have lt: "length s < m" using assms by (simp add: div_eq_0_iff)
  have d: "int (length s) div int m = 0" using True by (simp flip: zdiv_int)
  show ?thesis
  proof (cases "s = []")
    case True
    then show ?thesis using assms by (simp add: average_cyclic_pattern_def cyclic_mean_def)
  next
    case False
    then show ?thesis using assms True d lt
      by (simp add: average_cyclic_pattern_def cyclic_mean_def Let_def)
  qed
next
  case False
  define n where "n = length s div m"
  have n0: "n \<noteq> 0" using False by (simp add: n_def)
  have d: "int (length s) div int m = int n" by (simp add: n_def zdiv_int)
  have le: "n * m \<le> length s" by (simp add: n_def)
  have ne: "s \<noteq> []" using False by auto
  have len: "length (take (n * m) s) = n * m" using le by simp
  have tr: "nat (int n * int m) = n * m" by (simp add: nat_mult_distrib)
  have rows: "\<And>j. j < m \<Longrightarrow>
      map (\<lambda>row. row ! j) (map (\<lambda>r. take m (drop (r * m) (take (n * m) s))) [0 ..< n])
        = map (\<lambda>r. s ! (r * m + j)) [0 ..< n]"
  proof -
    fix j assume j: "j < m"
    have "\<And>r. r \<in> set [0 ..< n] \<Longrightarrow>
        take m (drop (r * m) (take (n * m) s)) ! j = s ! (r * m + j)"
      using row_nth [OF _ j le] by simp
    then show "map (\<lambda>row. row ! j) (map (\<lambda>r. take m (drop (r * m) (take (n * m) s))) [0 ..< n])
        = map (\<lambda>r. s ! (r * m + j)) [0 ..< n]"
      unfolding map_map o_def by (rule map_cong [OF refl])
  qed
  have "average_cyclic_pattern s (int m) =
      Inr (np_mean_axis0 (map (\<lambda>r. take m (drop (r * m) (take (n * m) s))) [0 ..< n]) m)"
    using assms ne n0
    by (simp add: average_cyclic_pattern_def d Let_def tr np_reshape_rows [OF len])
  also have "np_mean_axis0 (map (\<lambda>r. take m (drop (r * m) (take (n * m) s))) [0 ..< n]) m
      = map (\<lambda>j. sum_list (map (\<lambda>r. s ! (r * m + j)) [0 ..< n]) / real n) [0 ..< m]"
    unfolding np_mean_axis0_def by (rule map_cong [OF refl]) (simp only: rows length_map length_upt set_upt atLeastLessThan_iff minus_nat.diff_0)
  also have "\<dots> = cyclic_mean s m"
    using n0 by (simp add: cyclic_mean_def n_def [symmetric] Let_def)
  finally show ?thesis .
qed

lemma replicate_2: "replicate 2 x = [x, x]"
  by (simp add: numeral_2_eq_2)

section \<open>Facts about the accent template\<close>

lemma np_setitem_in_range:
  "0 \<le> i \<Longrightarrow> i < int (length xs) \<Longrightarrow> np_setitem xs i v = Inr (xs[nat i := v])"
  by (simp add: np_setitem_def np_index_def)

lemma np_getitem_in_range:
  "0 \<le> i \<Longrightarrow> i < int (length xs) \<Longrightarrow> np_getitem xs i = Inr (xs ! nat i)"
  by (simp add: np_getitem_def np_index_def)

lemma for_each_set_weight:
  assumes "list_all (\<lambda>p. 0 \<le> p) ps" and "int (length pat) = cl"
  shows "\<exists>pat'. for_each (\<lambda>pos pattern. if pos < cl then np_setitem pattern pos v else Inr pattern)
            ps pat = Inr pat'
          \<and> length pat' = length pat
          \<and> (\<forall>i < length pat. pat' ! i = (if int i \<in> set ps then v else pat ! i))"
  using assms
proof (induction ps arbitrary: pat)
  case Nil
  then show ?case by simp
next
  case (Cons pos ps)
  let ?body = "\<lambda>pos pattern. if pos < cl then np_setitem pattern pos v else Inr pattern"
  have pos0: "0 \<le> pos" and rest: "list_all (\<lambda>p. 0 \<le> p) ps" using Cons.prems(1) by simp_all
  show ?case
  proof (cases "pos < cl")
    case True
    then have step: "?body pos pat = Inr (pat[nat pos := v])"
      using pos0 Cons.prems(2) by (simp add: np_setitem_in_range)
    have len: "int (length (pat[nat pos := v])) = cl" using Cons.prems(2) by simp
    from Cons.IH [OF rest len] obtain pat' where
      r: "for_each ?body ps (pat[nat pos := v]) = Inr pat'" and
      l: "length pat' = length pat" and
      v: "\<forall>i < length pat. pat' ! i = (if int i \<in> set ps then v else pat[nat pos := v] ! i)"
      by auto
    have "for_each ?body (pos # ps) pat = Inr pat'" using step r by simp
    moreover have "\<forall>i < length pat. pat' ! i = (if int i \<in> set (pos # ps) then v else pat ! i)"
    proof (intro allI impI)
      fix i assume i: "i < length pat"
      show "pat' ! i = (if int i \<in> set (pos # ps) then v else pat ! i)"
      proof (cases "int i = pos")
        case True
        then have "nat pos = i" by auto
        with v i True show ?thesis by auto
      next
        case False
        then have "nat pos \<noteq> i" using pos0 by auto
        with v i False show ?thesis by auto
      qed
    qed
    ultimately show ?thesis using l by blast
  next
    case False
    then have step: "?body pos pat = Inr pat" by simp
    from Cons.IH [OF rest Cons.prems(2)] obtain pat' where
      r: "for_each ?body ps pat = Inr pat'" and
      l: "length pat' = length pat" and
      v: "\<forall>i < length pat. pat' ! i = (if int i \<in> set ps then v else pat ! i)"
      by auto
    have "for_each ?body (pos # ps) pat = Inr pat'" using step r by simp
    moreover have "\<forall>i < length pat. int i \<noteq> pos" using False Cons.prems(2) by auto
    ultimately show ?thesis using l v by auto
  qed
qed

lemma for_each_boundary_weight:
  assumes "list_all (\<lambda>p. 0 \<le> p) bs" and "int (length pat) = cl" and "w \<noteq> b0"
  shows "\<exists>pat'. for_each
            (\<lambda>boundary pattern.
               if boundary < cl
               then bind_err (np_getitem pattern boundary) (\<lambda>x.
                      if x = b0 then np_setitem pattern boundary w else Inr pattern)
               else Inr pattern)
            bs pat = Inr pat'
          \<and> length pat' = length pat
          \<and> (\<forall>i < length pat. pat' ! i = (if int i \<in> set bs \<and> pat ! i = b0 then w else pat ! i))"
  using assms(1,2)
proof (induction bs arbitrary: pat)
  case Nil
  then show ?case by simp
next
  case (Cons b bs)
  let ?body = "\<lambda>boundary pattern.
               if boundary < cl
               then bind_err (np_getitem pattern boundary) (\<lambda>x.
                      if x = b0 then np_setitem pattern boundary w else Inr pattern)
               else Inr pattern"
  let ?pat1 = "if b < cl \<and> pat ! nat b = b0 then pat[nat b := w] else pat"
  have b0: "0 \<le> b" and rest: "list_all (\<lambda>p. 0 \<le> p) bs" using Cons.prems(1) by simp_all
  have step: "?body b pat = Inr ?pat1"
    using b0 Cons.prems(2) by (simp add: np_getitem_in_range np_setitem_in_range)
  have len: "int (length ?pat1) = cl" using Cons.prems(2) by simp
  from Cons.IH [OF rest len] obtain pat' where
    r: "for_each ?body bs ?pat1 = Inr pat'" and
    l: "length pat' = length ?pat1" and
    v: "\<forall>i < length ?pat1. pat' ! i = (if int i \<in> set bs \<and> ?pat1 ! i = b0 then w else ?pat1 ! i)"
    by blast
  have l': "length pat' = length pat" using l by simp
  have "for_each ?body (b # bs) pat = Inr pat'" using step r by (simp del: for_each.simps(2) add: for_each.simps(2) [of ?body])
  moreover have "\<forall>i < length pat. pat' ! i = (if int i \<in> set (b # bs) \<and> pat ! i = b0 then w else pat ! i)"
  proof (intro allI impI)
    fix i assume i: "i < length pat"
    then have i': "i < length ?pat1" by simp
    have ib: "int i < cl" using i Cons.prems(2) by simp
    show "pat' ! i = (if int i \<in> set (b # bs) \<and> pat ! i = b0 then w else pat ! i)"
    proof (cases "int i = b")
      case True
      then have n: "nat b = i" by auto
      show ?thesis using v [rule_format, OF i'] i ib True n assms(3) by auto
    next
      case False
      then have n: "nat b \<noteq> i" using b0 by auto
      show ?thesis using v [rule_format, OF i'] i False n by auto
    qed
  qed
  ultimately show ?case using l' by blast
qed

lemma registry_getitem_total:
  "\<exists>d. registry_getitem t = Inr d \<and> name d = t \<and> d \<in> set registry_values
      \<and> sam_position d = 0 \<and> nonneg_positions d"
  by (cases t)
     (simp_all add: registry_getitem_def registry_values_def TAAL_REGISTRY_def
        nonneg_positions_def vibhag_boundaries_def)

lemma registry_values_lookup:
  "d \<in> set registry_values \<Longrightarrow> registry_getitem (name d) = Inr d \<and> 6 \<le> matras d \<and> matras d \<le> 16"
  unfolding registry_values_def TAAL_REGISTRY_def registry_getitem_def
  by (elim disjE | simp)+

lemma build_expected_accent_pattern_pointwise:
  assumes d: "registry_getitem t = Inr d" and nn: "nonneg_positions d"
    and sam: "sam_position d < cl"
  shows "\<exists>p. build_expected_accent_pattern t cl = Inr p \<and> length p = nat cl
     \<and> (\<forall>i < nat cl. p ! i = template_weight d (int i))"
proof -
  have sam0: "0 \<le> sam_position d" and tali: "list_all (\<lambda>p. 0 \<le> p) (tali_positions d)"
    and khali: "list_all (\<lambda>p. 0 \<le> p) (khali_positions d)"
    and bnd: "list_all (\<lambda>p. 0 \<le> p) (vibhag_boundaries d)"
    using nn by (simp_all add: nonneg_positions_def)
  have cl: "0 < cl" using sam sam0 by linarith
  define p0 :: "real list" where "p0 = replicate (nat cl) 0.5"
  define p1 where "p1 = p0[nat (sam_position d) := 1.0]"
  have ones: "np_ones cl = Inr (replicate (nat cl) 1)" using cl by (simp add: np_ones_def np_full_def)
  have m: "map (\<lambda>x. x * 0.5) (replicate (nat cl) (1::real)) = p0" by (simp add: p0_def)
  have l0: "int (length p0) = cl" using cl by (simp add: p0_def)
  have s1: "np_setitem p0 (sam_position d) 1.0 = Inr p1"
    using sam sam0 l0 by (simp add: np_setitem_in_range p1_def)
  have l1: "int (length p1) = cl" using l0 by (simp add: p1_def)
  from for_each_set_weight [OF tali l1, where v = "0.8"] obtain p2 where
    r2: "for_each (\<lambda>pos pattern. if pos < cl then np_setitem pattern pos 0.8 else Inr pattern)
           (tali_positions d) p1 = Inr p2"
    and l2: "length p2 = length p1"
    and v2: "\<forall>i < length p1. p2 ! i = (if int i \<in> set (tali_positions d) then 0.8 else p1 ! i)"
    by blast
  have l2': "int (length p2) = cl" using l1 l2 by simp
  from for_each_set_weight [OF khali l2', where v = "0.2"] obtain p3 where
    r3: "for_each (\<lambda>pos pattern. if pos < cl then np_setitem pattern pos 0.2 else Inr pattern)
           (khali_positions d) p2 = Inr p3"
    and l3: "length p3 = length p2"
    and v3: "\<forall>i < length p2. p3 ! i = (if int i \<in> set (khali_positions d) then 0.2 else p2 ! i)"
    by blast
  have l3': "int (length p3) = cl" using l2' l3 by simp
  have ne: "(0.65::real) \<noteq> 0.5" by simp
  from for_each_boundary_weight [OF bnd l3' ne] obtain p4 where
    r4: "for_each
           (\<lambda>boundary pattern.
              if boundary < cl
              then bind_err (np_getitem pattern boundary) (\<lambda>w.
                     if w = 0.5 then np_setitem pattern boundary 0.65 else Inr pattern)
              else Inr pattern)
           (vibhag_boundaries d) p3 = Inr p4"
    and l4: "length p4 = length p3"
    and v4: "\<forall>i < length p3. p4 ! i =
        (if int i \<in> set (vibhag_boundaries d) \<and> p3 ! i = 0.5 then 0.65 else p3 ! i)"
    by blast
  have b: "build_expected_accent_pattern t cl = Inr p4"
    unfolding build_expected_accent_pattern_def
    by (simp only: d ones bind_err_simps Let_def m s1 r2 r3 r4)
  have len: "length p4 = nat cl" using l4 l3' by simp
  have pw: "\<forall>i < nat cl. p4 ! i = template_weight d (int i)"
  proof (intro allI impI)
    fix i assume i: "i < nat cl"
    have i0: "i < length p0" using i l0 by simp
    have e1: "p1 ! i = (if int i = sam_position d then 1.0 else 0.5)"
    proof (cases "int i = sam_position d")
      case True
      then have "nat (sam_position d) = i" by auto
      then have "p1 ! i = 1.0" using i0 unfolding p1_def by simp
      with True show ?thesis by simp
    next
      case False
      then have "nat (sam_position d) \<noteq> i" using sam0 by auto
      then have "p1 ! i = p0 ! i" unfolding p1_def by simp
      with False i show ?thesis by (simp add: p0_def)
    qed
    have e2: "p2 ! i = (if int i \<in> set (tali_positions d) then 0.8 else p1 ! i)"
      using v2 i l1 by simp
    have e3: "p3 ! i = (if int i \<in> set (khali_positions d) then 0.2 else p2 ! i)"
      using v3 i l2' by simp
    have e4: "p4 ! i = (if int i \<in> set (vibhag_boundaries d) \<and> p3 ! i = 0.5 then 0.65 else p3 ! i)"
      using v4 i l3' by simp
    show "p4 ! i = template_weight d (int i)"
      unfolding e4 e3 e2 e1 template_weight_def by simp
  qed
  from b len pw show ?thesis by blast
qed

lemma sam_weight_never_one:
  assumes "0 < cl"
  shows "\<exists>p. build_expected_accent_pattern t cl = Inr p \<and> p ! 0 = (if t = RUPAK then 0.2 else 0.8)"
proof -
  from registry_getitem_total [of t] obtain d where
    d: "registry_getitem t = Inr d" and s: "sam_position d = 0" and nn: "nonneg_positions d"
    by blast
  have "sam_position d < cl" using s assms by simp
  from build_expected_accent_pattern_pointwise [OF d nn this] obtain p where
    b: "build_expected_accent_pattern t cl = Inr p"
    and w: "\<forall>i < nat cl. p ! i = template_weight d (int i)" by blast
  have "p ! 0 = template_weight d 0" using w assms by simp
  moreover have "template_weight d 0 = (if t = RUPAK then 0.2 else 0.8)"
    using d by (cases t) (auto simp add: registry_getitem_def TAAL_REGISTRY_def template_weight_def)
  ultimately show ?thesis using b by simp
qed

section \<open>Facts about the matcher, the retry and the pipeline\<close>

lemma for_each_append:
  "(\<And>x acc. x \<in> set xs \<Longrightarrow> body x acc = Inr (acc @ [h x])) \<Longrightarrow>
   for_each body xs acc = Inr (acc @ map h xs)"
  by (induction xs arbitrary: acc) simp_all

lemma length_cyclic_mean: "0 < m \<Longrightarrow> length (cyclic_mean s m) = m"
  by (auto simp add: cyclic_mean_def Let_def div_eq_0_iff)

lemma length_normalize [simp]: "length (normalize xs) = length xs"
  by (simp add: normalize_def Let_def)

lemma candidate_facts:
  assumes "d \<in> set (get_taals_by_matras cl)"
  shows "d \<in> set registry_values" "matras d = cl" "6 \<le> cl" "cl \<le> 16"
    "registry_getitem (name d) = Inr d"
  using assms registry_values_lookup [of d] by (auto simp add: get_taals_by_matras_def)

lemma candidate_template:
  assumes "d \<in> set (get_taals_by_matras cl)"
  shows "build_expected_accent_pattern (name d) cl =
           Inr (map (\<lambda>i. template_weight d (int i)) [0 ..< nat cl])"
proof -
  note f = candidate_facts [OF assms]
  from registry_getitem_total [of "name d"] f(5)
  have s: "sam_position d = 0" and nn: "nonneg_positions d" by auto
  have "sam_position d < cl" using s f(3) by simp
  from build_expected_accent_pattern_pointwise [OF f(5) nn this] obtain p where
    b: "build_expected_accent_pattern (name d) cl = Inr p" and l: "length p = nat cl"
    and w: "\<forall>i < nat cl. p ! i = template_weight d (int i)" by blast
  have "p = map (\<lambda>i. template_weight d (int i)) [0 ..< nat cl]"
    using l w by (intro nth_equalityI) simp_all
  with b show ?thesis by simp
qed

lemma match_body:
  assumes "d \<in> set (get_taals_by_matras cl)"
  shows "bind_err (build_expected_accent_pattern (name d) cl) (\<lambda>expected.
         bind_err (average_cyclic_pattern s cl) (\<lambda>avg_pattern.
         let obs_norm = normalize avg_pattern; exp_norm = normalize expected in
         bind_err (np_dot obs_norm exp_norm) (\<lambda>similarity.
         let confidence = max 0.0 (min 1.0 similarity) in
         Inr (results @ [(name d, confidence)]))))
       = Inr (results @ [(name d, match_confidence s cl d)])"
proof -
  note f = candidate_facts [OF assms]
  have pos: "0 < nat cl" using f(3) by simp
  have a: "average_cyclic_pattern s cl = Inr (cyclic_mean s (nat cl))"
    using average_cyclic_pattern_nat [OF pos, of s] f(3) by simp
  have dot: "np_dot (normalize (cyclic_mean s (nat cl)))
        (normalize (map (\<lambda>i. template_weight d (int i)) [0 ..< nat cl]))
      = Inr (sum_list (map (\<lambda>(x, y). x * y)
          (zip (normalize (cyclic_mean s (nat cl)))
               (normalize (map (\<lambda>i. template_weight d (int i)) [0 ..< nat cl])))))"
    using pos by (simp add: np_dot_def length_cyclic_mean)
  show ?thesis
    by (simp only: candidate_template [OF assms] a bind_err_simps Let_def dot match_confidence_def)
qed

lemma match_accent_pattern_eq: "match_accent_pattern s cl = Inr (ranking s cl)"
proof (cases "get_taals_by_matras cl = []")
  case True
  then show ?thesis
    by (simp add: match_accent_pattern_def ranking_def sorted_desc_def)
next
  case False
  have "for_each
          (\<lambda>taal_def results.
             bind_err (build_expected_accent_pattern (name taal_def) cl) (\<lambda>expected.
             bind_err (average_cyclic_pattern s cl) (\<lambda>avg_pattern.
             let obs_norm = normalize avg_pattern; exp_norm = normalize expected in
             bind_err (np_dot obs_norm exp_norm) (\<lambda>similarity.
             let confidence = max 0.0 (min 1.0 similarity) in
             Inr (results @ [(name taal_def, confidence)])))))
          (get_taals_by_matras cl) []
        = Inr ([] @ map (\<lambda>d. (name d, match_confidence s cl d)) (get_taals_by_matras cl))"
    by (rule for_each_append) (rule match_body)
  then show ?thesis
    using False
    by (simp add: match_accent_pattern_def ranking_def Let_def)
qed

lemma try_nearby_cycle_lengths_eq:
  "try_nearby_cycle_lengths s cl =
     Inr (sorted_desc (penalized s (cl + - 1) @ penalized s (cl + 1)
            @ penalized s (cl + - 2) @ penalized s (cl + 2)))"
  by (simp add: try_nearby_cycle_lengths_def match_accent_pattern_eq penalized_def Let_def)

lemma set_sorted_desc [simp]: "set (sorted_desc xs) = set xs"
  by (simp add: sorted_desc_def)

lemma sorted_sorted_desc: "sorted_wrt (\<lambda>a b. snd b \<le> snd a) (sorted_desc xs)"
proof -
  have "sorted (map (\<lambda>x. - snd x) (sorted_desc xs))"
    unfolding sorted_desc_def by (rule sorted_sort_key)
  then show ?thesis by (simp add: sorted_map)
qed

lemma distinct_names_sorted_desc:
  "distinct (map fst xs) \<Longrightarrow> distinct (map fst (sorted_desc xs))"
  by (simp add: distinct_map sorted_desc_def)

lemma registry_names_distinct: "distinct (map name registry_values)"
  by (simp add: registry_values_def TAAL_REGISTRY_def)

lemma registry_name_inj:
  "d \<in> set registry_values \<Longrightarrow> d' \<in> set registry_values \<Longrightarrow> name d = name d' \<Longrightarrow> d = d'"
  using registry_names_distinct by (auto simp add: distinct_map dest: inj_onD)

lemma match_confidence_range: "0 \<le> match_confidence s cl d \<and> match_confidence s cl d \<le> 1"
  by (simp add: match_confidence_def)

lemma ranking_member:
  assumes "(t, c) \<in> set (ranking s cl)"
  shows "\<exists>d. d \<in> set (get_taals_by_matras cl) \<and> t = name d \<and> c = match_confidence s cl d"
  using assms by (auto simp add: ranking_def)

lemma ranking_names_distinct: "distinct (map fst (ranking s cl))"
proof -
  have "map fst (map (\<lambda>d. (name d, match_confidence s cl d)) (get_taals_by_matras cl))
      = map name (get_taals_by_matras cl)" by simp
  moreover have "distinct (map name (get_taals_by_matras cl))"
    unfolding get_taals_by_matras_def by (rule distinct_map_filter [OF registry_names_distinct])
  ultimately show ?thesis
    unfolding ranking_def by (intro distinct_names_sorted_desc) (simp add: o_def)
qed

lemma penalized_member:
  assumes "(t, c) \<in> set (penalized s n)"
  shows "0 < n \<and> (\<exists>c'. (t, c') \<in> set (ranking s n) \<and> c = c' * 0.8)"
  using assms by (auto simp add: penalized_def split: if_splits)

lemma penalized_names: "map fst (penalized s n) = (if 0 < n then map fst (ranking s n) else [])"
  by (simp add: penalized_def case_prod_unfold o_def)

lemma penalized_names_distinct: "distinct (map fst (penalized s n))"
  by (simp add: penalized_names ranking_names_distinct)

lemma penalized_name_matras:
  assumes "t \<in> fst ` set (penalized s n)"
  shows "\<exists>d \<in> set registry_values. name d = t \<and> matras d = n"
proof -
  from assms obtain c where "(t, c) \<in> set (penalized s n)" by auto
  from penalized_member [OF this] obtain c' where "(t, c') \<in> set (ranking s n)" by blast
  from ranking_member [OF this] obtain d where "d \<in> set (get_taals_by_matras n)" "t = name d"
    by blast
  then show ?thesis using candidate_facts(1,2) [of d n] by auto
qed

lemma penalized_disjoint:
  assumes "n \<noteq> n'"
  shows "fst ` set (penalized s n) \<inter> fst ` set (penalized s n') = {}"
proof (rule ccontr)
  assume "fst ` set (penalized s n) \<inter> fst ` set (penalized s n') \<noteq> {}"
  then obtain t where a: "t \<in> fst ` set (penalized s n)" and b: "t \<in> fst ` set (penalized s n')"
    by auto
  from penalized_name_matras [OF a] obtain d where
    d: "d \<in> set registry_values" "name d = t" "matras d = n" by blast
  from penalized_name_matras [OF b] obtain d' where
    d': "d' \<in> set registry_values" "name d' = t" "matras d' = n'" by blast
  from registry_name_inj [OF d(1) d'(1)] d(2) d'(2) have "d = d'" by simp
  with d(3) d'(3) assms show False by simp
qed

lemma nearby_rankings_names_distinct: "distinct (map fst (nearby_rankings s cl))"
proof -
  define A where "A = penalized s (cl + - 1)"
  define B where "B = penalized s (cl + 1)"
  define C where "C = penalized s (cl + - 2)"
  define D where "D = penalized s (cl + 2)"
  have dist: "distinct (map fst A)" "distinct (map fst B)" "distinct (map fst C)"
    "distinct (map fst D)"
    unfolding A_def B_def C_def D_def by (rule penalized_names_distinct)+
  have ab: "fst ` set A \<inter> fst ` set B = {}" unfolding A_def B_def
    by (rule penalized_disjoint) simp
  have ac: "fst ` set A \<inter> fst ` set C = {}" unfolding A_def C_def
    by (rule penalized_disjoint) simp
  have ad: "fst ` set A \<inter> fst ` set D = {}" unfolding A_def D_def
    by (rule penalized_disjoint) simp
  have bc: "fst ` set B \<inter> fst ` set C = {}" unfolding B_def C_def
    by (rule penalized_disjoint) simp
  have bd: "fst ` set B \<inter> fst ` set D = {}" unfolding B_def D_def
    by (rule penalized_disjoint) simp
  have cd: "fst ` set C \<inter> fst ` set D = {}" unfolding C_def D_def
    by (rule penalized_disjoint) simp
  have "distinct (map fst (A @ B @ C @ D))"
    using dist ab ac ad bc bd cd by (simp add: image_Un Int_Un_distrib)
  then show ?thesis
    unfolding nearby_rankings_def A_def B_def C_def D_def by (rule distinct_names_sorted_desc)
qed

lemma try_nearby_cycle_lengths_eq': "try_nearby_cycle_lengths s cl = Inr (nearby_rankings s cl)"
  by (simp add: try_nearby_cycle_lengths_eq nearby_rankings_def)

lemma penalized_member_full:
  assumes "(t, c) \<in> set (penalized s n)"
  shows "\<exists>d c'. registry_getitem t = Inr d \<and> 0 < matras d \<and> matras d = n
     \<and> (t, c') \<in> set (ranking s (matras d)) \<and> c = c' * 0.8"
proof -
  from penalized_member [OF assms] obtain c' where
    p: "0 < n" and r: "(t, c') \<in> set (ranking s n)" and c: "c = c' * 0.8"
    by blast
  from ranking_member [OF r] obtain d where
    d: "d \<in> set (get_taals_by_matras n)" "t = name d" by blast
  note f = candidate_facts [OF d(1)]
  have "registry_getitem t = Inr d" using f(5) d(2) by simp
  moreover have "(t, c') \<in> set (ranking s (matras d))" using r f(2) by simp
  ultimately show ?thesis using p c f(2) by blast
qed

lemma nearby_rankings_member:
  assumes "(t, c) \<in> set (nearby_rankings s cl)"
  shows "\<exists>d c'. registry_getitem t = Inr d \<and> 0 < matras d
     \<and> (matras d = cl + - 1 \<or> matras d = cl + 1 \<or> matras d = cl + - 2 \<or> matras d = cl + 2)
     \<and> (t, c') \<in> set (ranking s (matras d)) \<and> c = c' * 0.8"
proof -
  from assms consider
      "(t, c) \<in> set (penalized s (cl + - 1))" | "(t, c) \<in> set (penalized s (cl + 1))"
    | "(t, c) \<in> set (penalized s (cl + - 2))" | "(t, c) \<in> set (penalized s (cl + 2))"
    unfolding nearby_rankings_def set_sorted_desc set_append by blast
  then show ?thesis
  proof cases
    case 1
    from penalized_member_full [OF this] show ?thesis by blast
  next
    case 2
    from penalized_member_full [OF this] show ?thesis by blast
  next
    case 3
    from penalized_member_full [OF this] show ?thesis by blast
  next
    case 4
    from penalized_member_full [OF this] show ?thesis by blast
  qed
qed

lemma estimate_cycle_length_total: "\<exists>cl. estimate_cycle_length downbeats = Inr cl"
proof (cases "downbeats = []")
  case True
  then show ?thesis by (simp add: estimate_cycle_length_def)
next
  case False
  from estimate_cycle_length_eq [OF False] show ?thesis by blast
qed

lemma sort_eq_Nil: "sort xs = [] \<longleftrightarrow> xs = []"
  by (metis length_0_conv length_sort)

lemma np_median_nonempty:
  "xs \<noteq> [] \<Longrightarrow>
   np_median xs = Inr (if odd (length xs) then sort xs ! (length xs div 2)
     else (sort xs ! (length xs div 2 - 1) + sort xs ! (length xs div 2)) / 2)"
  by (simp add: np_median_def Let_def sort_eq_Nil)

lemma np_median_total: "xs \<noteq> [] \<Longrightarrow> \<exists>m. np_median xs = Inr m"
  using np_median_nonempty by blast

lemma estimate_tempo_total: "\<exists>tempo. estimate_tempo beat_times = Inr tempo \<and> 0 \<le> tempo"
proof (cases "length beat_times < 2")
  case True
  then show ?thesis by (simp add: estimate_tempo_def)
next
  case False
  then have "compute_ioi beat_times \<noteq> []"
    by (cases beat_times; cases "tl beat_times") (auto simp add: compute_ioi_def)
  from np_median_total [OF this] obtain m where "np_median (compute_ioi beat_times) = Inr m" ..
  with False show ?thesis by (simp add: estimate_tempo_def)
qed

lemma fold_min_split:
  "\<forall>e \<in> set pre0. f best < f e \<Longrightarrow> \<forall>e \<in> set post0. f best \<le> f e \<Longrightarrow>
   \<exists>pre post. pre0 @ best # post0 @ rest
        = pre @ fold (\<lambda>y best. if f y < f best then y else best) rest best # post
      \<and> (\<forall>e \<in> set pre. f (fold (\<lambda>y best. if f y < f best then y else best) rest best) < f e)
      \<and> (\<forall>e \<in> set post. f (fold (\<lambda>y best. if f y < f best then y else best) rest best) \<le> f e)"
  for f :: "'a \<Rightarrow> int"
proof (induction rest arbitrary: best pre0 post0)
  case Nil
  then show ?case by auto
next
  case (Cons y rest)
  show ?case
  proof (cases "f y < f best")
    case True
    have "\<forall>e \<in> set (pre0 @ best # post0). f y < f e"
      using Cons.prems True by auto
    from Cons.IH [OF this, of "[]"] True show ?thesis by simp
  next
    case False
    have "\<forall>e \<in> set (post0 @ [y]). f best \<le> f e"
      using Cons.prems False by auto
    from Cons.IH [OF Cons.prems(1) this] False show ?thesis by simp
  qed
qed

lemma py_min_key_first_least:
  assumes "xs \<noteq> []"
  shows "\<exists>m pre post. py_min_key f xs = Inr m \<and> xs = pre @ m # post
     \<and> (\<forall>e \<in> set pre. f m < f e) \<and> (\<forall>e \<in> set post. f m \<le> f e)"
proof -
  from assms obtain x rest where xs: "xs = x # rest" by (cases xs) auto
  from fold_min_split [of "[]" f x "[]" rest] show ?thesis
    by (auto simp add: xs py_min_key_def)
qed

lemma registry_values_nonempty: "registry_values \<noteq> []"
  by (simp add: registry_values_def TAAL_REGISTRY_def)

lemma build_beat_infos_eq:
  assumes "matras d \<noteq> 0"
  shows "build_beat_infos beat_times strengths d
     = Inr (map (annotate_beat strengths d) (enumerate 0 beat_times))"
proof -
  have "for_each
       (\<lambda>(i, beat_time) beat_infos.
          bind_err (py_mod (int i) (matras d)) (\<lambda>pos.
          Inr (beat_infos @
            [\<lparr>time = py_round beat_time 4,
              beat_position = pos,
              is_sam = (pos = sam_position d),
              is_khali = (pos \<in> set (khali_positions d)),
              strength = (if i < length strengths then py_round (strengths ! i) 4 else 0.0)\<rparr>])))
       (enumerate 0 beat_times) []
     = Inr ([] @ map (annotate_beat strengths d) (enumerate 0 beat_times))"
    by (rule for_each_append) (auto simp add: py_mod_def annotate_beat_def assms)
  then show ?thesis by (simp add: build_beat_infos_def)
qed

lemma build_fallback_result_eq:
  assumes "estimate_tempo beat_times = Inr tempo"
    and "py_min_key (\<lambda>t. \<bar>matras t - cl\<bar>) registry_values = Inr closest"
  shows "build_fallback_result beat_times cl =
     Inr \<lparr>taal = name closest, confidence = 0.1, tempo_bpm = py_round tempo 1,
          matra_duration = py_round (if tempo > 0 then 60.0 / tempo else 0.0) 4,
          cycle_duration =
            py_round ((if tempo > 0 then 60.0 / tempo else 0.0) * of_int (matras closest)) 4,
          beats = [], alternative_taals = []\<rparr>"
  by (simp add: build_fallback_result_def assms Let_def)

lemma detect_taal_eq:
  assumes "estimate_cycle_length downbeats = Inr cl"
  shows "detect_taal beat_times downbeats s =
     (case final_rankings s cl of
        [] \<Rightarrow> build_fallback_result beat_times cl
      | (best_taal, best_confidence) # alternatives \<Rightarrow>
          bind_err (estimate_tempo beat_times) (\<lambda>tempo.
          bind_err (registry_getitem best_taal) (\<lambda>taal_def.
          Inr \<lparr>taal = best_taal, confidence = best_confidence,
               tempo_bpm = py_round tempo 1,
               matra_duration = py_round (if tempo > 0 then 60.0 / tempo else 0.0) 4,
               cycle_duration =
                 py_round ((if tempo > 0 then 60.0 / tempo else 0.0) * of_int (matras taal_def)) 4,
               beats = map (annotate_beat s taal_def) (enumerate 0 beat_times),
               alternative_taals = alternatives\<rparr>)))"
proof -
  have bb: "\<And>t d. registry_getitem t = Inr d \<Longrightarrow>
      build_beat_infos beat_times s d = Inr (map (annotate_beat s d) (enumerate 0 beat_times))"
  proof -
    fix t d assume g: "registry_getitem t = Inr d"
    from registry_getitem_total [of t] g have "d \<in> set registry_values" by auto
    from registry_values_lookup [OF this] have "matras d \<noteq> 0" by auto
    then show "build_beat_infos beat_times s d
        = Inr (map (annotate_beat s d) (enumerate 0 beat_times))"
      by (rule build_beat_infos_eq)
  qed
  obtain tempo where tempo: "estimate_tempo beat_times = Inr tempo"
    using estimate_tempo_total by blast
  show ?thesis
  proof (cases "final_rankings s cl")
    case Nil
    then show ?thesis
      by (simp add: detect_taal_def assms match_accent_pattern_eq try_nearby_cycle_lengths_eq'
          final_rankings_def split: if_splits)
  next
    case (Cons a alts)
    obtain bt bc where a: "a = (bt, bc)" by (cases a)
    obtain d where d: "registry_getitem bt = Inr d" using registry_getitem_total by blast
    have fr: "(if ranking s cl = [] then try_nearby_cycle_lengths s cl else Inr (ranking s cl))
        = Inr (final_rankings s cl)"
      by (simp add: final_rankings_def try_nearby_cycle_lengths_eq')
    show ?thesis
      by (simp add: detect_taal_def assms match_accent_pattern_eq fr Cons a tempo d bb [OF d]
          Let_def)
  qed
qed

lemma dot_zeros:
  "sum_list (map (\<lambda>(x, y). x * y) (zip (replicate m (0::real)) ys)) = 0"
proof (induction ys arbitrary: m)
  case Nil
  show ?case by simp
next
  case (Cons y ys)
  then show ?case by (cases m) simp_all
qed

lemma normalize_zeros: "normalize (replicate m 0) = replicate m 0"
proof -
  have "sum_list (map (\<lambda>x. x * x) (replicate m (0::real))) = 0"
    by (induction m) simp_all
  then show ?thesis by (simp add: normalize_def np_norm_def)
qed

lemma match_confidence_no_strengths: "match_confidence [] cl d = 0"
  by (simp add: match_confidence_def cyclic_mean_def normalize_zeros dot_zeros)

lemma ranking_no_strengths:
  "ranking [] 6 = [(DADRA, 0)] \<and> ranking [] 7 = [(RUPAK, 0)]"
  by (simp add: ranking_def get_taals_by_matras_def registry_values_def TAAL_REGISTRY_def
      sorted_desc_def match_confidence_no_strengths)

lemma ranking_no_candidates:
  "cl < 6 \<Longrightarrow> ranking s cl = []" "16 < cl \<Longrightarrow> ranking s cl = []"
  by (simp_all add: ranking_def get_taals_by_matras_def registry_values_def TAAL_REGISTRY_def
      sorted_desc_def)

lemma penalized_empty_obs:
  "penalized [] 4 = [] \<and> penalized [] 3 = [] \<and> penalized [] 6 = [(DADRA, 0)]
   \<and> penalized [] 7 = [(RUPAK, 0)]"
  by (simp add: penalized_def ranking_no_strengths ranking_no_candidates)

section \<open>Facts about the pipeline and evaluated examples\<close>

lemma estimate_tempo_two:
  "estimate_tempo [0, 1/2] = Inr 120" "estimate_tempo [0, 7/10] = Inr (600/7)"
  by (simp_all add: estimate_tempo_def compute_ioi_def np_median_def)

lemma py_round_values:
  "py_round 120 (Suc 0) = 120" "py_round (600/7) (Suc 0) = 857/10" "py_round (1/2) 4 = 1/2"
  "py_round (7/10) 4 = 7/10" "py_round 3 4 = 3" "py_round (21/5) 4 = 21/5"
  "py_round 0 4 = 0" "py_round (60 / (857/10) * 6) 4 = 42007/10000"
  by (simp_all add: py_round_def round_half_even_def Let_def)

lemma nearby_rankings_no_strengths_5: "nearby_rankings [] 5 = [(DADRA, 0), (RUPAK, 0)]"
  using penalized_empty_obs by (simp add: nearby_rankings_def sorted_desc_def)

lemma final_rankings_no_strengths_5: "final_rankings [] 5 = [(DADRA, 0), (RUPAK, 0)]"
  by (simp add: final_rankings_def ranking_no_candidates nearby_rankings_no_strengths_5)

lemma estimate_cycle_length_5: "estimate_cycle_length (sample_downbeats 2 5) = Inr 5"
  by code_simp

lemma registry_getitem_DADRA:
  "registry_getitem DADRA = Inr \<lparr>name = DADRA, matras = 6, vibhags = [3, 3], sam_position = 0,
        khali_positions = [3], tali_positions = [0],
        common_layas = [''madhya'', ''drut'']\<rparr>"
  by (simp add: registry_getitem_def TAAL_REGISTRY_def)

lemma final_rankings_names_distinct: "distinct (map fst (final_rankings s cl))"
  by (simp add: final_rankings_def ranking_names_distinct nearby_rankings_names_distinct)

lemma final_rankings_sorted: "sorted_wrt (\<lambda>a b. snd b \<le> snd a) (final_rankings s cl)"
  by (simp add: final_rankings_def ranking_def nearby_rankings_def sorted_sorted_desc)

lemma detect_taal_fallback:
  assumes "estimate_cycle_length downbeats = Inr cl" and "final_rankings s cl = []"
  shows "detect_taal beat_times downbeats s = build_fallback_result beat_times cl"
  by (simp add: detect_taal_eq [OF assms(1)] assms(2))

lemma detect_taal_ranked:
  assumes "estimate_cycle_length downbeats = Inr cl"
    and "final_rankings s cl = (bt, bc) # alts"
  shows "\<exists>res. detect_taal beat_times downbeats s = Inr res \<and> taal res = bt
     \<and> confidence res = bc \<and> alternative_taals res = alts"
proof -
  obtain tempo where tempo: "estimate_tempo beat_times = Inr tempo"
    using estimate_tempo_total by blast
  obtain d where d: "registry_getitem bt = Inr d" using registry_getitem_total by blast
  show ?thesis by (simp add: detect_taal_eq [OF assms(1)] assms(2) tempo d)
qed

lemma build_fallback_result_total:
  "\<exists>res closest pre post. build_fallback_result beat_times cl = Inr res
     \<and> confidence res = 0.1 \<and> beats res = [] \<and> alternative_taals res = []
     \<and> taal res = name closest \<and> registry_values = pre @ closest # post
     \<and> (\<forall>e \<in> set pre. \<bar>matras closest - cl\<bar> < \<bar>matras e - cl\<bar>)
     \<and> (\<forall>e \<in> set post. \<bar>matras closest - cl\<bar> \<le> \<bar>matras e - cl\<bar>)"
proof -
  obtain tempo where tempo: "estimate_tempo beat_times = Inr tempo"
    using estimate_tempo_total by blast
  from py_min_key_first_least [OF registry_values_nonempty, of "\<lambda>t. \<bar>matras t - cl\<bar>"]
  obtain m pre post where
    k: "py_min_key (\<lambda>t. \<bar>matras t - cl\<bar>) registry_values = Inr m"
    and sp: "registry_values = pre @ m # post"
    and lt: "\<forall>e \<in> set pre. \<bar>matras m - cl\<bar> < \<bar>matras e - cl\<bar>"
    and le: "\<forall>e \<in> set post. \<bar>matras m - cl\<bar> \<le> \<bar>matras e - cl\<bar>" by blast
  obtain res where "build_fallback_result beat_times cl = Inr res" "confidence res = 0.1"
    "beats res = []" "alternative_taals res = []" "taal res = name m"
    using build_fallback_result_eq [OF tempo k] by simp
  then show ?thesis using sp lt le by blast
qed

lemma detect_taal_properties:
  assumes "estimate_cycle_length downbeats = Inr cl"
  shows "\<exists>res. detect_taal beat_times downbeats s = Inr res
       \<and> taal res \<notin> fst ` set (alternative_taals res)
       \<and> sorted_wrt (\<lambda>a b. snd b \<le> snd a) (alternative_taals res)
       \<and> (final_rankings s cl \<noteq> [] \<longrightarrow>
            (taal res, confidence res) # alternative_taals res = final_rankings s cl)"
proof (cases "final_rankings s cl")
  case Nil
  from build_fallback_result_total [of beat_times cl] obtain res where
    "build_fallback_result beat_times cl = Inr res" "alternative_taals res = []" by blast
  then show ?thesis using detect_taal_fallback [OF assms Nil] Nil by auto
next
  case (Cons a alts)
  obtain bt bc where a: "a = (bt, bc)" by (cases a)
  from detect_taal_ranked [OF assms Cons [unfolded a]] obtain res where
    r: "detect_taal beat_times downbeats s = Inr res" "taal res = bt" "confidence res = bc"
      "alternative_taals res = alts" by blast
  have "distinct (map fst ((bt, bc) # alts))"
    using final_rankings_names_distinct [of s cl] Cons a by simp
  then have n: "bt \<notin> fst ` set alts" by simp
  have "sorted_wrt (\<lambda>a b. snd b \<le> snd a) ((bt, bc) # alts)"
    using final_rankings_sorted [of s cl] Cons a by simp
  then have so: "sorted_wrt (\<lambda>a b. snd b \<le> snd a) alts" by simp
  show ?thesis using r n so Cons a by auto
qed

lemma no_rankings_final:
  assumes "match_accent_pattern s cl = Inr []" and "try_nearby_cycle_lengths s cl = Inr []"
  shows "final_rankings s cl = []"
  using assms by (simp add: match_accent_pattern_eq try_nearby_cycle_lengths_eq' final_rankings_def)

lemma estimate_cycle_length_two_beats: "estimate_cycle_length [(0, 1), (t, 2)] = Inr 3"
  by (simp add: estimate_cycle_length_def astype_int_def Counter_def most_common1_def
      np_getitem_def np_index_def)

lemma final_rankings_three: "final_rankings s 3 = []"
  by (simp add: final_rankings_def nearby_rankings_def penalized_def ranking_no_candidates
      sorted_desc_def)

lemma py_min_key_three:
  "py_min_key (\<lambda>t. \<bar>matras t - 3\<bar>) registry_values =
     Inr \<lparr>name = DADRA, matras = 6, vibhags = [3, 3], sam_position = 0,
        khali_positions = [3], tali_positions = [0],
        common_layas = [''madhya'', ''drut'']\<rparr>"
  by (simp add: py_min_key_def registry_values_def TAAL_REGISTRY_def)

lemma build_fallback_result_three:
  "build_fallback_result [0, 7/10] 3 =
     Inr \<lparr>taal = DADRA, confidence = 1/10, tempo_bpm = 857/10, matra_duration = 7/10,
          cycle_duration = 21/5, beats = [], alternative_taals = []\<rparr>"
  "build_fallback_result [0, 1/2] 3 =
     Inr \<lparr>taal = DADRA, confidence = 1/10, tempo_bpm = 120, matra_duration = 1/2,
          cycle_duration = 3, beats = [], alternative_taals = []\<rparr>"
  by (simp_all add: build_fallback_result_eq [OF estimate_tempo_two(2) py_min_key_three]
      build_fallback_result_eq [OF estimate_tempo_two(1) py_min_key_three] py_round_values)

lemma detect_taal_two_beats:
  "detect_taal beat_times [(0, 1), (t, 2)] s = build_fallback_result beat_times 3"
  by (rule detect_taal_fallback [OF estimate_cycle_length_two_beats final_rankings_three])

lemma no_rankings_three:
  "match_accent_pattern s 3 = Inr []" "try_nearby_cycle_lengths s 3 = Inr []"
  using final_rankings_three [of s]
  by (simp_all add: match_accent_pattern_eq try_nearby_cycle_lengths_eq' final_rankings_def
      ranking_no_candidates)

lemma detect_taal_total: "\<exists>res. detect_taal beat_times downbeats s = Inr res"
proof -
  obtain cl where cl: "estimate_cycle_length downbeats = Inr cl"
    using estimate_cycle_length_total by blast
  from detect_taal_properties [OF cl] show ?thesis by blast
qed

section \<open>Cycle length estimator: claims C5 and C10\<close>

text \<open>
  C5. The claim is that a bar boundary records the running maximum plus one, the running
  maximum being the greatest position seen since the last reset. The code starts
  \<open>current_max\<close> at 0 and compares from index 1 on, so the first position of the stream
  never enters the running maximum, while after a reset \<open>current_max\<close> restarts from the
  position that caused the reset. On the stream of positions 6, 0, 1, 2, 3, 4, 5, 6 (a
  recording that starts on the last beat of a bar of 7) the code tallies the lengths 1 and 7
  and returns 1; the rule of the claim records 7 and 7, so its vote is 7
  (\<open>observed_lengths_vote_example\<close>).
\<close>

theorem first_position_not_counted:
  "beat_positions_of
      [(0, 6), (1/2, 0), (1, 1), (3/2, 2), (2, 3), (5/2, 4), (3, 5), (7/2, 6)]
     = [6, 0, 1, 2, 3, 4, 5, 6]
   \<and> estimate_cycle_length
      [(0, 6), (1/2, 0), (1, 1), (3/2, 2), (2, 3), (5/2, 4), (3, 5), (7/2, 6)] = Inr 1
   \<and> scanned_lengths [6, 0, 1, 2, 3, 4, 5, 6] = [1, 7]
   \<and> observed_lengths [6, 0, 1, 2, 3, 4, 5, 6] = [7, 7]"
proof -
  have p: "beat_positions_of
      [(0, 6), (1/2, 0), (1, 1), (3/2, 2), (2, 3), (5/2, 4), (3, 5), (7/2, 6)]
     = [6, 0, 1, 2, 3, 4, 5, 6]"
    by (simp add: beat_positions_of_def astype_int_def)
  have e: "estimate_cycle_length
      [(0, 6), (1/2, 0), (1, 1), (3/2, 2), (2, 3), (5/2, 4), (3, 5), (7/2, 6)] = Inr 1"
    by code_simp
  have s: "scanned_lengths [6, 0, 1, 2, 3, 4, 5, 6] = [1, 7]"
    by (simp add: scanned_lengths_def scanned_maxima_def)
  have o: "observed_lengths [6, 0, 1, 2, 3, 4, 5, 6] = [7, 7]"
    by (simp add: observed_lengths_def running_maxima_def)
  from p e s o show ?thesis by blast
qed

text \<open>
  C10. On a downbeat stream whose bar-relative positions are all non-negative, the
  estimator returns an integer that is at least 1 when the stream is non-empty, and it
  returns 0 only for the empty stream.
\<close>

theorem estimate_cycle_length_positive:
  assumes "\<forall>row \<in> set downbeats. 0 \<le> snd row"
  shows "(downbeats \<noteq> [] \<longrightarrow> (\<exists>r. estimate_cycle_length downbeats = Inr r \<and> 1 \<le> r))
     \<and> (estimate_cycle_length downbeats = Inr 0 \<longleftrightarrow> downbeats = [])"
proof -
  let ?ps = "beat_positions_of downbeats"
  have nn: "\<forall>p \<in> set ?ps. 0 \<le> p"
    using assms by (auto simp: beat_positions_of_def astype_int_nonneg)
  have pos: "\<exists>r. estimate_cycle_length downbeats = Inr r \<and> 1 \<le> r" if ne: "downbeats \<noteq> []"
  proof -
    from estimate_cycle_length_eq [OF ne] obtain r where
      r: "estimate_cycle_length downbeats = Inr r" and
      c: "if scanned_lengths ?ps = [] then r = Max (set ?ps) + 1
          else first_most_frequent (scanned_lengths ?ps) = Some r" by blast
    have "1 \<le> r"
    proof (cases "scanned_lengths ?ps = []")
      case True
      have "?ps \<noteq> []" using ne by (simp add: beat_positions_of_def)
      then have "Max (set ?ps) \<in> set ?ps" using Max_in [of "set ?ps"] by simp
      with nn have "0 \<le> Max (set ?ps)" by blast
      with c True show ?thesis by simp
    next
      case False
      with c have "r \<in> set (scanned_lengths ?ps)" by (simp add: first_most_frequent_member)
      from scanned_lengths_members [OF this] obtain m where
        "m \<in> set (scanned_maxima ?ps)" "r = m + 1" by blast
      with scanned_maxima_nonneg [OF nn] show ?thesis by simp
    qed
    with r show ?thesis by blast
  qed
  have e0: "estimate_cycle_length [] = Inr 0" by (simp add: estimate_cycle_length_def)
  show ?thesis
  proof (cases "downbeats = []")
    case True
    then show ?thesis by (simp add: e0)
  next
    case False
    from pos [OF False] False show ?thesis by auto
  qed
qed

theorem estimate_cycle_length_positive_witness:
  "list_all (\<lambda>row. 0 \<le> snd row) [(0, 0), (1, 0), (2 :: real, 0 :: real)]
   \<and> estimate_cycle_length [(0, 0), (1, 0), (2, 0)] = Inr 1
   \<and> estimate_cycle_length [(0, 0), (1, 0), (2, 0)] \<noteq> Inr 0"
proof -
  have h: "\<forall>row \<in> set [(0, 0), (1, 0), (2 :: real, 0 :: real)]. 0 \<le> snd row" by simp
  have v: "estimate_cycle_length [(0, 0), (1, 0), (2, 0)] = Inr 1" by code_simp
  from estimate_cycle_length_positive [OF h] v show ?thesis by simp
qed

section \<open>Cyclic averaging: claim C6\<close>

text \<open>
  C6. For every strength sequence and every positive cycle length, cyclic averaging returns
  \<open>cyclic_mean\<close>: the per-position mean over the \<open>floor(len / cycle_length)\<close> full cycles,
  the trailing partial cycle discarded, and the zero-padded sequence when there is no full
  cycle. Averaging \<open>[1,0,0,0, 1,0,0,0, 1,0,0,0]\<close> at cycle length 4 gives \<open>[1,0,0,0]\<close>,
  and a two-element input at cycle length 4 gives its two entries followed by two zeros.
\<close>

theorem average_cyclic_pattern_spec:
  "(0 < cycle_length \<longrightarrow>
      average_cyclic_pattern strengths cycle_length = Inr (cyclic_mean strengths (nat cycle_length)))
   \<and> average_cyclic_pattern [1, 0, 0, 0, 1, 0, 0, 0, 1, 0, 0, 0] 4 = Inr [1, 0, 0, 0]
   \<and> average_cyclic_pattern [a, b] 4 = Inr [a, b, 0, 0]"
proof -
  have g: "0 < cycle_length \<longrightarrow>
      average_cyclic_pattern strengths cycle_length = Inr (cyclic_mean strengths (nat cycle_length))"
    using average_cyclic_pattern_nat [of "nat cycle_length" strengths] by auto
  have "cyclic_mean [1, 0, 0, 0, 1, 0, 0, 0, 1, 0, 0, 0] 4 = [1, 0, 0, 0]"
    by (simp add: cyclic_mean_def upt_conv_Cons)
  then have e1: "average_cyclic_pattern [1, 0, 0, 0, 1, 0, 0, 0, 1, 0, 0, 0] 4 = Inr [1, 0, 0, 0]"
    using average_cyclic_pattern_nat [of 4 "[1, 0, 0, 0, 1, 0, 0, 0, 1, 0, 0, 0]"] by simp
  have "cyclic_mean [a, b] 4 = [a, b, 0, 0]"
    by (simp add: cyclic_mean_def replicate_2)
  then have e2: "average_cyclic_pattern [a, b] 4 = Inr [a, b, 0, 0]"
    using average_cyclic_pattern_nat [of 4 "[a, b]"] by simp
  show ?thesis using g e1 e2 by blast
qed

text \<open>
  The witness averages five entries at cycle length 2: two full cycles, the fifth entry
  discarded.
\<close>

theorem average_cyclic_pattern_spec_witness:
  "(0 :: int) < 2
   \<and> cyclic_mean [1, 3, 5, 7, 9] 2 = [3, 5]
   \<and> average_cyclic_pattern [1, 3, 5, 7, 9] 2 = Inr [3, 5]"
proof -
  have c: "cyclic_mean [1, 3, 5, 7, 9] 2 = [3, 5]"
    by (simp add: cyclic_mean_def upt_conv_Cons)
  with average_cyclic_pattern_spec [of 2 "[1, 3, 5, 7, 9]"] show ?thesis by simp
qed

section \<open>Accent template builder: claims C1 and C3\<close>

text \<open>
  C3. For every registered taal and every positive cycle length, also one smaller than the
  taal's matras, the builder raises nothing and returns a curve of exactly
  \<open>cycle_length\<close> entries. Entry \<open>i\<close> is the weight \<open>template_weight\<close> gives index \<open>i\<close>:
  a tali, khali or boundary position that is not below \<open>cycle_length\<close> is no index of the
  curve, so it is ignored; the sam position of every registered taal is 0 and is in range.
\<close>

theorem build_expected_accent_pattern_clips:
  assumes "0 < cycle_length"
  shows "\<exists>d pattern. registry_getitem t = Inr d
     \<and> build_expected_accent_pattern t cycle_length = Inr pattern
     \<and> length pattern = nat cycle_length
     \<and> (\<forall>i < nat cycle_length. pattern ! i = template_weight d (int i))"
proof -
  from registry_getitem_total [of t] obtain d where
    d: "registry_getitem t = Inr d" and s: "sam_position d = 0" and nn: "nonneg_positions d"
    by blast
  have "sam_position d < cycle_length" using s assms by simp
  from build_expected_accent_pattern_pointwise [OF d nn this] d show ?thesis by blast
qed

text \<open>
  The witness builds the template of Teentaal (16 matras) at cycle length 5: the tali
  position 12, the khali position 8 and the boundaries 8 and 12 are ignored.
\<close>

theorem build_expected_accent_pattern_clips_witness:
  "(0 :: int) < 5
   \<and> build_expected_accent_pattern TEENTAAL 5 = Inr [0.8, 0.5, 0.5, 0.5, 0.8]
   \<and> length [0.8, 0.5, 0.5, 0.5, 0.8 :: real] = nat 5"
proof -
  have e: "build_expected_accent_pattern TEENTAAL 5 = Inr [0.8, 0.5, 0.5, 0.5, 0.8]"
    by (simp add: build_expected_accent_pattern_def registry_getitem_def TAAL_REGISTRY_def
        np_ones_def np_full_def np_setitem_def np_getitem_def np_index_def vibhag_boundaries_def
        numeral_eq_Suc)
  from build_expected_accent_pattern_clips [of 5 TEENTAAL] e
  show ?thesis by auto
qed

text \<open>
  C1. The claim is that the template is 1.0 at the sam position. The code writes 1.0 there
  first and then runs the tali and khali loops, which overwrite it: the template of Dadra at
  its own cycle length 6 has 0.8 at index 0 (sam is also a tali position), and the template
  of Rupak at cycle length 7 has 0.2 there (sam is also a khali position).
\<close>

theorem sam_weight_is_overwritten:
  "build_expected_accent_pattern DADRA 6 = Inr [0.8, 0.5, 0.5, 0.2, 0.5, 0.5]
   \<and> build_expected_accent_pattern RUPAK 7 = Inr [0.2, 0.5, 0.5, 0.8, 0.5, 0.8, 0.5]"
  by (simp add: build_expected_accent_pattern_def registry_getitem_def TAAL_REGISTRY_def
      np_ones_def np_full_def np_setitem_def np_getitem_def np_index_def vibhag_boundaries_def
      numeral_eq_Suc)

section \<open>Retry controller: claim C4\<close>

text \<open>
  C4. The retry merges the rankings of the offsets -1, +1, -2, +2, in this order, a
  candidate length that is not positive contributing nothing (\<open>penalized\<close>), and sorts the
  merged list by descending confidence. Every pair \<open>(taal, confidence)\<close> it returns is a
  registered taal whose matras is one of the four candidate lengths, and its confidence is
  exactly 0.8 times the confidence the Pattern Matcher gives that taal at the taal's own
  matras. The Pattern Matcher itself returns \<open>ranking\<close> at every cycle length.
\<close>

theorem try_nearby_cycle_lengths_penalty:
  "match_accent_pattern accent_strengths n = Inr (ranking accent_strengths n)
   \<and> (\<exists>r. try_nearby_cycle_lengths accent_strengths cycle_length = Inr r
        \<and> r = sorted_desc
              (penalized accent_strengths (cycle_length + - 1)
               @ penalized accent_strengths (cycle_length + 1)
               @ penalized accent_strengths (cycle_length + - 2)
               @ penalized accent_strengths (cycle_length + 2))
        \<and> sorted_wrt (\<lambda>a b. snd b \<le> snd a) r
        \<and> (\<forall>(t, c) \<in> set r. \<exists>d r' c'.
              registry_getitem t = Inr d
              \<and> (matras d = cycle_length + - 1 \<or> matras d = cycle_length + 1
                   \<or> matras d = cycle_length + - 2 \<or> matras d = cycle_length + 2)
              \<and> match_accent_pattern accent_strengths (matras d) = Inr r'
              \<and> (t, c') \<in> set r' \<and> c = c' * 0.8))"
proof -
  let ?r = "nearby_rankings accent_strengths cycle_length"
  have m: "\<forall>(t, c) \<in> set ?r. \<exists>d r' c'.
              registry_getitem t = Inr d
              \<and> (matras d = cycle_length + - 1 \<or> matras d = cycle_length + 1
                   \<or> matras d = cycle_length + - 2 \<or> matras d = cycle_length + 2)
              \<and> match_accent_pattern accent_strengths (matras d) = Inr r'
              \<and> (t, c') \<in> set r' \<and> c = c' * 0.8"
  proof (intro ballI, clarify)
    fix t c assume "(t, c) \<in> set ?r"
    from nearby_rankings_member [OF this] obtain d c' where
      "registry_getitem t = Inr d"
      "matras d = cycle_length + - 1 \<or> matras d = cycle_length + 1
         \<or> matras d = cycle_length + - 2 \<or> matras d = cycle_length + 2"
      "(t, c') \<in> set (ranking accent_strengths (matras d))" "c = c' * 0.8" by blast
    then show "\<exists>d r' c'. registry_getitem t = Inr d
              \<and> (matras d = cycle_length + - 1 \<or> matras d = cycle_length + 1
                   \<or> matras d = cycle_length + - 2 \<or> matras d = cycle_length + 2)
              \<and> match_accent_pattern accent_strengths (matras d) = Inr r'
              \<and> (t, c') \<in> set r' \<and> c = c' * 0.8"
      using match_accent_pattern_eq by blast
  qed
  have s: "sorted_wrt (\<lambda>a b. snd b \<le> snd a) ?r"
    unfolding nearby_rankings_def by (rule sorted_sorted_desc)
  have e: "try_nearby_cycle_lengths accent_strengths cycle_length = Inr ?r"
    by (rule try_nearby_cycle_lengths_eq')
  have d: "?r = sorted_desc
              (penalized accent_strengths (cycle_length + - 1)
               @ penalized accent_strengths (cycle_length + 1)
               @ penalized accent_strengths (cycle_length + - 2)
               @ penalized accent_strengths (cycle_length + 2))"
    by (simp add: nearby_rankings_def)
  show ?thesis using match_accent_pattern_eq e d s m by blast
qed

text \<open>
  The witness retries around cycle length 5 with no accent strengths: lengths 4 and 3 have
  no taal, 6 gives Dadra and 7 gives Rupak, each with confidence \<open>0 * 0.8\<close>.
\<close>

theorem try_nearby_cycle_lengths_penalty_witness:
  "match_accent_pattern [] 6 = Inr [(DADRA, 0)]
   \<and> try_nearby_cycle_lengths [] 5 = Inr [(DADRA, 0), (RUPAK, 0)]
   \<and> (0 :: real) = 0 * 0.8"
proof -
  have r6: "ranking [] 6 = [(DADRA, 0)]" by (simp add: ranking_no_strengths)
  have "sorted_desc ([] @ [(DADRA, 0)] @ [] @ [(RUPAK, 0)]) = [(DADRA, 0), (RUPAK, 0)]"
    by (simp add: sorted_desc_def)
  with try_nearby_cycle_lengths_penalty [of "[]" 6 5] r6 penalized_empty_obs
  show ?thesis by simp
qed

section \<open>Rankings and alternatives: claim C9\<close>

text \<open>
  C9. At every cycle length the Pattern Matcher returns a ranking sorted by non-increasing
  confidence, every confidence lying in \<open>[0, 1]\<close>. For every input the pipeline returns a
  result whose \<open>alternative_taals\<close> do not contain the result's taal and are sorted by
  descending confidence; on the non-fallback path, where the ranking the pipeline goes on
  with (\<open>final_rankings\<close>) is not empty, the best match followed by the alternatives is that
  ranking.
\<close>

theorem rankings_sorted_and_alternatives:
  "(\<exists>r. match_accent_pattern observed_pattern cycle_length = Inr r
        \<and> sorted_wrt (\<lambda>a b. snd b \<le> snd a) r
        \<and> (\<forall>(t, c) \<in> set r. 0 \<le> c \<and> c \<le> 1))
   \<and> (\<exists>cl res. estimate_cycle_length downbeats = Inr cl
        \<and> detect_taal beat_times downbeats accent_strengths = Inr res
        \<and> taal res \<notin> fst ` set (alternative_taals res)
        \<and> sorted_wrt (\<lambda>a b. snd b \<le> snd a) (alternative_taals res)
        \<and> (final_rankings accent_strengths cl \<noteq> [] \<longrightarrow>
             (taal res, confidence res) # alternative_taals res
               = final_rankings accent_strengths cl))"
proof -
  have "sorted_wrt (\<lambda>a b. snd b \<le> snd a) (ranking observed_pattern cycle_length)"
    unfolding ranking_def by (rule sorted_sorted_desc)
  moreover have "\<forall>(t, c) \<in> set (ranking observed_pattern cycle_length). 0 \<le> c \<and> c \<le> 1"
    using ranking_member match_confidence_range by fastforce
  ultimately have a: "\<exists>r. match_accent_pattern observed_pattern cycle_length = Inr r
        \<and> sorted_wrt (\<lambda>a b. snd b \<le> snd a) r
        \<and> (\<forall>(t, c) \<in> set r. 0 \<le> c \<and> c \<le> 1)"
    using match_accent_pattern_eq by blast
  obtain cl where cl: "estimate_cycle_length downbeats = Inr cl"
    using estimate_cycle_length_total by blast
  from detect_taal_properties [OF cl] cl a show ?thesis by blast
qed

text \<open>
  The witness runs the pipeline on two cycles of positions 0..4 with no beat and no accent
  strength:
  the estimated length 5 has no taal, the retry ranks Dadra and Rupak, and Rupak is the one
  alternative.
\<close>

theorem rankings_sorted_and_alternatives_witness:
  "match_accent_pattern [] 6 = Inr [(DADRA, 0)]
   \<and> estimate_cycle_length (sample_downbeats 2 5) = Inr 5
   \<and> final_rankings [] 5 = [(DADRA, 0), (RUPAK, 0)]
   \<and> (\<exists>res. detect_taal [] (sample_downbeats 2 5) [] = Inr res
        \<and> taal res = DADRA \<and> confidence res = 0 \<and> alternative_taals res = [(RUPAK, 0)])"
proof -
  have m: "match_accent_pattern [] 6 = Inr [(DADRA, 0)]"
    by (simp add: match_accent_pattern_eq ranking_no_strengths)
  from rankings_sorted_and_alternatives [of "[]" 6 "sample_downbeats 2 5" "[]" "[]"]
  show ?thesis
    using m estimate_cycle_length_5 final_rankings_no_strengths_5 by auto
qed

section \<open>Terminal fallback: claims C7 and C2\<close>

text \<open>
  C7. When the match at the estimated cycle length and the retry both return the empty
  ranking, the pipeline returns the fallback result: confidence 0.1, no beats, no
  alternatives, and the taal of the first registry entry, in registry order, whose matras is
  closest to the estimated cycle length (every entry before it is strictly farther, every
  entry after it is not closer).
\<close>

theorem detect_taal_terminal_fallback:
  assumes "estimate_cycle_length downbeats = Inr cycle_length"
    and "match_accent_pattern accent_strengths cycle_length = Inr []"
    and "try_nearby_cycle_lengths accent_strengths cycle_length = Inr []"
  shows "\<exists>res closest pre post.
     detect_taal beat_times downbeats accent_strengths = Inr res
     \<and> confidence res = 0.1 \<and> beats res = [] \<and> alternative_taals res = []
     \<and> taal res = name closest \<and> registry_values = pre @ closest # post
     \<and> (\<forall>e \<in> set pre. \<bar>matras closest - cycle_length\<bar> < \<bar>matras e - cycle_length\<bar>)
     \<and> (\<forall>e \<in> set post. \<bar>matras closest - cycle_length\<bar> \<le> \<bar>matras e - cycle_length\<bar>)"
  unfolding detect_taal_fallback [OF assms(1) no_rankings_final [OF assms(2,3)]]
  by (rule build_fallback_result_total)

text \<open>
  The witness has two beats at bar positions 1 and 2 (estimated length 3); the lengths 1 to
  5 have no taal, and the closest registered taal is Dadra.
\<close>

theorem detect_taal_terminal_fallback_witness:
  "estimate_cycle_length [(0, 1), (7/10, 2)] = Inr 3
   \<and> match_accent_pattern [3/10, 1/5] 3 = Inr []
   \<and> try_nearby_cycle_lengths [3/10, 1/5] 3 = Inr []
   \<and> detect_taal [0, 7/10] [(0, 1), (7/10, 2)] [3/10, 1/5] =
       Inr \<lparr>taal = DADRA, confidence = 1/10, tempo_bpm = 857/10, matra_duration = 7/10,
            cycle_duration = 21/5, beats = [], alternative_taals = []\<rparr>"
proof -
  from detect_taal_terminal_fallback [OF estimate_cycle_length_two_beats [of "7/10"]
      no_rankings_three(1) [of "[3/10, 1/5]"] no_rankings_three(2) [of "[3/10, 1/5]"],
      where beat_times = "[0, 7/10]"]
  obtain res where "detect_taal [0, 7/10] [(0, 1), (7/10, 2)] [3/10, 1/5] = Inr res" by blast
  then show ?thesis
    using estimate_cycle_length_two_beats [of "7/10"] no_rankings_three [of "[3/10, 1/5]"]
    by (simp add: detect_taal_two_beats build_fallback_result_three)
qed

text \<open>
  C2, as stated, fails. With two beats, at 0 and 0.7 seconds and at bar positions 1 and 2,
  the pipeline takes the terminal fallback; the tempo estimate is \<open>60 / 0.7\<close>,
  reported as 85.7; the fallback result reports the cycle duration
  \<open>round(0.7 * 6, 4) = 4.2\<close>, while 60 divided by the reported 85.7, times 6 matras,
  rounded to four decimals, is 4.2007.
\<close>

theorem fallback_round_trip_counterexample:
  "estimate_cycle_length [(0, 1), (7/10, 2)] = Inr 3
   \<and> match_accent_pattern [3/10, 1/5] 3 = Inr []
   \<and> try_nearby_cycle_lengths [3/10, 1/5] 3 = Inr []
   \<and> detect_taal [0, 7/10] [(0, 1), (7/10, 2)] [3/10, 1/5] =
       Inr \<lparr>taal = DADRA, confidence = 1/10, tempo_bpm = 857/10, matra_duration = 7/10,
            cycle_duration = 21/5, beats = [], alternative_taals = []\<rparr>
   \<and> py_round (60 / (857/10) * 6) 4 = 42007/10000
   \<and> (42007/10000 :: real) \<noteq> 21/5"
proof -
  have "py_round (60 / (857/10) * 6) 4 = 42007/10000"
    by (simp add: py_round_def round_half_even_def Let_def)
  moreover have "(42007/10000 :: real) \<noteq> 21/5" by simp
  moreover have "detect_taal [0, 7/10] [(0, 1), (7/10, 2)] [3/10, 1/5] =
       Inr \<lparr>taal = DADRA, confidence = 1/10, tempo_bpm = 857/10, matra_duration = 7/10,
            cycle_duration = 21/5, beats = [], alternative_taals = []\<rparr>"
    by (simp add: detect_taal_two_beats build_fallback_result_three)
  ultimately show ?thesis
    using estimate_cycle_length_two_beats [of "7/10"] no_rankings_three [of "[3/10, 1/5]"]
    by blast
qed

text \<open>
  C2, amended. In every terminal-fallback result the cycle duration is 60 divided by the
  unrounded tempo estimate (0 when the estimate is 0), times the matras of the chosen taal,
  rounded to four decimals, and \<open>tempo_bpm\<close> is the estimate rounded to one decimal. So
  recomputing from the reported \<open>tempo_bpm\<close> gives the reported cycle duration when the
  estimate is positive and rounding to one decimal leaves it unchanged.
\<close>

theorem fallback_cycle_duration:
  assumes "estimate_cycle_length downbeats = Inr cycle_length"
    and "match_accent_pattern accent_strengths cycle_length = Inr []"
    and "try_nearby_cycle_lengths accent_strengths cycle_length = Inr []"
    and "estimate_tempo beat_times = Inr tempo"
  shows "\<exists>res d.
     detect_taal beat_times downbeats accent_strengths = Inr res
     \<and> registry_getitem (taal res) = Inr d
     \<and> tempo_bpm res = py_round tempo 1
     \<and> cycle_duration res = py_round ((if 0 < tempo then 60 / tempo else 0) * of_int (matras d)) 4
     \<and> (0 < tempo \<and> py_round tempo 1 = tempo \<longrightarrow>
          py_round (60 / tempo_bpm res * of_int (matras d)) 4 = cycle_duration res)"
proof -
  from py_min_key_first_least [OF registry_values_nonempty,
      of "\<lambda>t. \<bar>matras t - cycle_length\<bar>"]
  obtain m pre post where
    k: "py_min_key (\<lambda>t. \<bar>matras t - cycle_length\<bar>) registry_values = Inr m"
    and sp: "registry_values = pre @ m # post" by blast
  have "m \<in> set registry_values" by (metis sp in_set_conv_decomp)
  from registry_values_lookup [OF this] have g: "registry_getitem (name m) = Inr m" by simp
  have d: "detect_taal beat_times downbeats accent_strengths
      = build_fallback_result beat_times cycle_length"
    by (rule detect_taal_fallback [OF assms(1) no_rankings_final [OF assms(2,3)]])
  obtain res where res: "build_fallback_result beat_times cycle_length = Inr res"
    "taal res = name m" "tempo_bpm res = py_round tempo 1"
    "cycle_duration res = py_round ((if 0 < tempo then 60 / tempo else 0) * of_int (matras m)) 4"
    using build_fallback_result_eq [OF assms(4) k] by simp
  have "0 < tempo \<and> py_round tempo 1 = tempo \<longrightarrow>
      py_round (60 / tempo_bpm res * of_int (matras m)) 4 = cycle_duration res"
    using res(3,4) by simp
  then have "detect_taal beat_times downbeats accent_strengths = Inr res
     \<and> registry_getitem (taal res) = Inr m
     \<and> tempo_bpm res = py_round tempo 1
     \<and> cycle_duration res = py_round ((if 0 < tempo then 60 / tempo else 0) * of_int (matras m)) 4
     \<and> (0 < tempo \<and> py_round tempo 1 = tempo \<longrightarrow>
          py_round (60 / tempo_bpm res * of_int (matras m)) 4 = cycle_duration res)"
    using d res g by simp
  then show ?thesis by blast
qed

text \<open>
  The witness has two beats, at 0 and 0.5 seconds and at bar positions 1 and 2: the tempo
  estimate is 120.
\<close>

theorem fallback_cycle_duration_witness:
  "estimate_cycle_length [(0, 1), (1/2, 2)] = Inr 3
   \<and> match_accent_pattern [3/10, 1/5] 3 = Inr []
   \<and> try_nearby_cycle_lengths [3/10, 1/5] 3 = Inr []
   \<and> estimate_tempo [0, 1/2] = Inr 120
   \<and> (0 :: real) < 120 \<and> py_round 120 1 = 120
   \<and> detect_taal [0, 1/2] [(0, 1), (1/2, 2)] [3/10, 1/5] =
       Inr \<lparr>taal = DADRA, confidence = 1/10, tempo_bpm = 120, matra_duration = 1/2,
            cycle_duration = 3, beats = [], alternative_taals = []\<rparr>
   \<and> py_round (60 / 120 * 6) 4 = 3"
proof -
  have r: "py_round 120 1 = 120" using py_round_values(1) by simp
  have p: "py_round (60 / 120 * 6) 4 = 3" using py_round_values(5) by simp
  have e: "detect_taal [0, 1/2] [(0, 1), (1/2, 2)] [3/10, 1/5] =
       Inr \<lparr>taal = DADRA, confidence = 1/10, tempo_bpm = 120, matra_duration = 1/2,
            cycle_duration = 3, beats = [], alternative_taals = []\<rparr>"
    by (simp add: detect_taal_two_beats build_fallback_result_three)
  from fallback_cycle_duration [OF estimate_cycle_length_two_beats [of "1/2"]
      no_rankings_three(1) [of "[3/10, 1/5]"] no_rankings_three(2) [of "[3/10, 1/5]"]
      estimate_tempo_two(1)]
  obtain res d where "detect_taal [0, 1/2] [(0, 1), (1/2, 2)] [3/10, 1/5] = Inr res" by blast
  with e show ?thesis
    using r p estimate_cycle_length_two_beats [of "1/2"] no_rankings_three [of "[3/10, 1/5]"]
      estimate_tempo_two(1)
    by simp
qed

section \<open>Malformed input: claim C8\<close>



end
